theory Spec2Isabelle
  imports Main
begin

section \<open>Timestamps and filenames\<close>

text \<open>
  \<^verbatim>\<open>app/etl.py\<close> reads the capture time of a snapshot from the name of its file.
  A timestamp is a naive \<^verbatim>\<open>datetime.datetime\<close>: six numeric fields.
\<close>

record datetime =
  year :: nat
  month :: nat
  day :: nat
  hour :: nat
  minute :: nat
  second :: nat

subsection \<open>\<^verbatim>\<open>str.split\<close> and \<^verbatim>\<open>str.endswith\<close>\<close>

text \<open>
  \<^verbatim>\<open>s.split(c)\<close> for a one-character separator: the tokens between the
  separators, empty tokens kept; a string without separator is one token.
\<close>

fun split :: "char \<Rightarrow> string \<Rightarrow> string list" where
  "split c [] = [[]]"
| "split c (x # xs) =
     (if x = c then [] # split c xs
      else (case split c xs of t # ts \<Rightarrow> (x # t) # ts | [] \<Rightarrow> [[x]]))"

definition endswith :: "string \<Rightarrow> string \<Rightarrow> bool" where
  "endswith s suffix = (length suffix \<le> length s \<and> drop (length s - length suffix) s = suffix)"

subsection \<open>\<^verbatim>\<open>datetime.strptime(s, '%Y%m%d_%H%M%S')\<close>\<close>

text \<open>
  CPython turns the format into the regular expression
  \<^verbatim>\<open>(?P<Y>\d\d\d\d)(?P<m>1[0-2]|0[1-9]|[1-9])(?P<d>3[0-1]|[1-2]\d|0[1-9]|[1-9]| [1-9])_(?P<H>2[0-3]|[0-1]\d|\d)(?P<M>[0-5]\d|\d)(?P<S>6[0-1]|[0-5]\d|\d)\<close>,
  matches it at the start of the string, raises \<^verbatim>\<open>ValueError\<close> when there is no
  match or when the match stops before the end of the string ("unconverted data
  remains"), and builds the \<^verbatim>\<open>datetime\<close> from the groups, which raises
  \<^verbatim>\<open>ValueError\<close> for a field out of range.

  A group is modelled by the list of its matches at the head of the input, in the
  order of its alternatives; each match is the number read and the rest of the input.
  The first element of the list monad's result is the match a backtracking matcher finds.
\<close>

definition digit :: "char \<Rightarrow> bool" where
  "digit c = (48 \<le> (of_char c :: nat) \<and> (of_char c :: nat) \<le> 57)"

definition digit_val :: "char \<Rightarrow> nat" where
  "digit_val c = of_char c - 48"

definition between :: "nat \<Rightarrow> nat \<Rightarrow> char \<Rightarrow> bool" where
  "between lo hi c = (digit c \<and> lo \<le> digit_val c \<and> digit_val c \<le> hi)"

definition two :: "(char \<Rightarrow> bool) \<Rightarrow> (char \<Rightarrow> bool) \<Rightarrow> string \<Rightarrow> (nat \<times> string) list" where
  "two p q s =
     (case s of
        a # b # r \<Rightarrow> if p a \<and> q b then [(10 * digit_val a + digit_val b, r)] else []
      | _ \<Rightarrow> [])"

definition one :: "(char \<Rightarrow> bool) \<Rightarrow> string \<Rightarrow> (nat \<times> string) list" where
  "one p s = (case s of a # r \<Rightarrow> if p a then [(digit_val a, r)] else [] | [] \<Rightarrow> [])"

definition blank_one :: "string \<Rightarrow> (nat \<times> string) list" where
  "blank_one s =
     (case s of
        a # b # r \<Rightarrow> if a = CHR '' '' \<and> between 1 9 b then [(digit_val b, r)] else []
      | _ \<Rightarrow> [])"

definition group_Y :: "string \<Rightarrow> (nat \<times> string) list" where
  "group_Y s =
     (case s of
        a # b # c # d # r \<Rightarrow>
          if digit a \<and> digit b \<and> digit c \<and> digit d
          then [(1000 * digit_val a + 100 * digit_val b + 10 * digit_val c + digit_val d, r)]
          else []
      | _ \<Rightarrow> [])"

definition group_m :: "string \<Rightarrow> (nat \<times> string) list" where
  "group_m s = two (between 1 1) (between 0 2) s @ two (between 0 0) (between 1 9) s
     @ one (between 1 9) s"

definition group_d :: "string \<Rightarrow> (nat \<times> string) list" where
  "group_d s = two (between 3 3) (between 0 1) s @ two (between 1 2) digit s
     @ two (between 0 0) (between 1 9) s @ one (between 1 9) s @ blank_one s"

definition group_H :: "string \<Rightarrow> (nat \<times> string) list" where
  "group_H s = two (between 2 2) (between 0 3) s @ two (between 0 1) digit s @ one digit s"

definition group_M :: "string \<Rightarrow> (nat \<times> string) list" where
  "group_M s = two (between 0 5) digit s @ one digit s"

definition group_S :: "string \<Rightarrow> (nat \<times> string) list" where
  "group_S s = two (between 6 6) (between 0 1) s @ two (between 0 5) digit s @ one digit s"

definition literal :: "char \<Rightarrow> string \<Rightarrow> string list" where
  "literal c s = (case s of a # r \<Rightarrow> if a = c then [r] else [] | [] \<Rightarrow> [])"

definition format_matches :: "string \<Rightarrow> (datetime \<times> string) list" where
  "format_matches s =
     List.bind (group_Y s) (\<lambda>(y, s1).
     List.bind (group_m s1) (\<lambda>(mo, s2).
     List.bind (group_d s2) (\<lambda>(d, s3).
     List.bind (literal CHR ''_'' s3) (\<lambda>s4.
     List.bind (group_H s4) (\<lambda>(h, s5).
     List.bind (group_M s5) (\<lambda>(mi, s6).
     List.bind (group_S s6) (\<lambda>(sec, s7).
       [(\<lparr>year = y, month = mo, day = d, hour = h, minute = mi, second = sec\<rparr>, s7)])))))))"

definition is_leap :: "nat \<Rightarrow> bool" where
  "is_leap y = (y mod 4 = 0 \<and> (y mod 100 \<noteq> 0 \<or> y mod 400 = 0))"

definition days_in_month :: "nat \<Rightarrow> nat \<Rightarrow> nat" where
  "days_in_month y m =
     (if m = 2 then (if is_leap y then 29 else 28)
      else if m = 4 \<or> m = 6 \<or> m = 9 \<or> m = 11 then 30 else 31)"

text \<open>The checks of the \<^verbatim>\<open>datetime\<close> constructor.\<close>

definition valid_datetime :: "datetime \<Rightarrow> bool" where
  "valid_datetime t =
     (1 \<le> year t \<and> year t \<le> 9999 \<and> 1 \<le> month t \<and> month t \<le> 12
      \<and> 1 \<le> day t \<and> day t \<le> days_in_month (year t) (month t)
      \<and> hour t \<le> 23 \<and> minute t \<le> 59 \<and> second t \<le> 59)"

text \<open>\<open>None\<close> stands for the \<^verbatim>\<open>ValueError\<close>.\<close>

definition strptime :: "string \<Rightarrow> datetime option" where
  "strptime s =
     (case format_matches s of
        [] \<Rightarrow> None
      | (t, rest) # _ \<Rightarrow> if rest \<noteq> [] then None else if valid_datetime t then Some t else None)"

subsection \<open>\<^verbatim>\<open>parse_timestamp_from_filename\<close>\<close>

text \<open>
  \<^verbatim>\<open>filename.split('_')[1] + '_' + filename.split('_')[2]\<close> raises
  \<^verbatim>\<open>IndexError\<close> when the name has fewer than three tokens; the bare
  \<^verbatim>\<open>except\<close> turns it and the \<^verbatim>\<open>ValueError\<close> of \<^verbatim>\<open>strptime\<close> into
  \<^verbatim>\<open>None\<close>.
\<close>

definition parse_timestamp_from_filename :: "string \<Rightarrow> datetime option" where
  "parse_timestamp_from_filename filename =
     (case split CHR ''_'' filename of
        _ # date # time # _ \<Rightarrow> strptime (date @ ''_'' @ time)
      | _ \<Rightarrow> None)"


text \<open>
  How \<^verbatim>\<open>strftime('%Y%m%d_%H%M%S')\<close> writes the fields: zero-padded decimal numbers
  of fixed width. Only the statements about the parser use these.
\<close>

definition dchar :: "nat \<Rightarrow> char" where
  "dchar k = char_of (48 + k)"

definition pad2 :: "nat \<Rightarrow> string" where
  "pad2 n = [dchar (n div 10), dchar (n mod 10)]"

definition pad4 :: "nat \<Rightarrow> string" where
  "pad4 n = [dchar (n div 1000), dchar (n div 100 mod 10), dchar (n div 10 mod 10), dchar (n mod 10)]"

definition stamp :: "datetime \<Rightarrow> string" where
  "stamp t = pad4 (year t) @ pad2 (month t) @ pad2 (day t) @ ''_''
     @ pad2 (hour t) @ pad2 (minute t) @ pad2 (second t)"

section \<open>Decoded JSON and Python values\<close>

text \<open>
  The values \<^verbatim>\<open>json.loads\<close> returns. A float is kept as mantissa and decimal
  exponent: the pipeline never computes with it. An object is the \<^verbatim>\<open>dict\<close> that
  \<^verbatim>\<open>json.loads\<close> built, as its items in insertion order (keys distinct).
\<close>

datatype json =
    JNull
  | JBool bool
  | JInt int
  | JFloat int int
  | JStr string
  | JArr "json list"
  | JObj "(string \<times> json) list"

text \<open>
  The text of a file, as far as \<^verbatim>\<open>json.loads\<close> and \<^verbatim>\<open>str.strip\<close> tell texts
  apart: only white space, not valid JSON, or the text of a JSON document.
  \<^verbatim>\<open>json.dump\<close> writes the text of the value it is given.
\<close>

datatype filetext = Blank | Malformed | Doc json

datatype exn =
    JSONDecodeError
  | AttributeError
  | TypeError
  | KeyError
  | OSError
  | DatabaseError

definition json_loads :: "filetext \<Rightarrow> exn + json" where
  "json_loads content =
     (case content of Blank \<Rightarrow> Inl JSONDecodeError | Malformed \<Rightarrow> Inl JSONDecodeError
      | Doc j \<Rightarrow> Inr j)"

text \<open>Python's truth value of a decoded value (\<^verbatim>\<open>if not station_code\<close>).\<close>

fun truthy :: "json \<Rightarrow> bool" where
  "truthy JNull = False"
| "truthy (JBool b) = b"
| "truthy (JInt n) = (n \<noteq> 0)"
| "truthy (JFloat m e) = (m \<noteq> 0)"
| "truthy (JStr s) = (s \<noteq> [])"
| "truthy (JArr xs) = (xs \<noteq> [])"
| "truthy (JObj kvs) = (kvs \<noteq> [])"

text \<open>\<^verbatim>\<open>d.get(key, default)\<close> on a \<^verbatim>\<open>dict\<close>.\<close>

definition lookup :: "(string \<times> json) list \<Rightarrow> string \<Rightarrow> json \<Rightarrow> json" where
  "lookup kvs k dflt = (case map_of kvs k of Some v \<Rightarrow> v | None \<Rightarrow> dflt)"

text \<open>
  \<^verbatim>\<open>for x in v\<close>: a list gives its elements, a \<^verbatim>\<open>dict\<close> its keys, a string its
  characters; anything else raises \<^verbatim>\<open>TypeError\<close>.
\<close>

definition iterate :: "json \<Rightarrow> exn + json list" where
  "iterate v =
     (case v of
        JArr xs \<Rightarrow> Inr xs
      | JObj kvs \<Rightarrow> Inr (map (\<lambda>kv. JStr (fst kv)) kvs)
      | JStr s \<Rightarrow> Inr (map (\<lambda>c. JStr [c]) s)
      | _ \<Rightarrow> Inl TypeError)"

fun hashable :: "json \<Rightarrow> bool" where
  "hashable (JArr xs) = False"
| "hashable (JObj kvs) = False"
| "hashable v = True"

text \<open>\<^verbatim>\<open>set(v)\<close>, as the list of its members.\<close>

definition to_set :: "json \<Rightarrow> exn + json list" where
  "to_set v =
     (case iterate v of
        Inl e \<Rightarrow> Inl e
      | Inr xs \<Rightarrow> if list_all hashable xs then Inr xs else Inl TypeError)"

section \<open>The relational store\<close>

type_synonym station_row = "json \<times> json \<times> json \<times> json \<times> json \<times> json"
type_synonym velo_row = "json \<times> json"
type_synonym etat_row = "nat \<times> json \<times> json \<times> json \<times> json \<times> json"
type_synonym loc_row = "nat \<times> json \<times> json \<times> json \<times> json"

text \<open>
  Nothing in the repository makes \<^verbatim>\<open>timestamp_capture\<close> NOT NULL: a snapshot row
  holds a timestamp or NULL (read by psycopg2 as \<^verbatim>\<open>None\<close>).
\<close>

record db =
  snapshot :: "(nat \<times> datetime option) list"
  station :: "station_row list"
  velo :: "velo_row list"
  etat_station :: "etat_row list"
  localisation_velo :: "loc_row list"

text \<open>
  Modelled from the spec: the tables' definitions are not in the repository. The store's
  verdict on a row (its column types, NOT NULL and foreign-key constraints, the server
  being reachable) is a parameter: each predicate sees the transaction's tables when the
  statement starts and the row. \<open>commit_ok\<close> and \<open>rollback_ok\<close> are the verdicts on a
  commit and on a rollback (which raises when the connection is lost). The unique keys
  are the spec's: \<^verbatim>\<open>timestamp_capture\<close> for a snapshot, whose \<^verbatim>\<open>snapshot_id\<close> is
  generated from a sequence; (\<^verbatim>\<open>snapshot_id\<close>, \<^verbatim>\<open>station_code\<close>) for a station state;
  (\<^verbatim>\<open>snapshot_id\<close>, \<^verbatim>\<open>velo_name\<close>) for a bike location. The conflict targets of
  \<^verbatim>\<open>station\<close> and \<^verbatim>\<open>velo\<close> are in the statements of \<^verbatim>\<open>process_file_content\<close>.
\<close>

record schema =
  snapshot_ok :: "db \<Rightarrow> datetime \<Rightarrow> bool"
  station_ok :: "db \<Rightarrow> station_row \<Rightarrow> bool"
  velo_ok :: "db \<Rightarrow> velo_row \<Rightarrow> bool"
  etat_ok :: "db \<Rightarrow> etat_row \<Rightarrow> bool"
  loc_ok :: "db \<Rightarrow> loc_row \<Rightarrow> bool"
  commit_ok :: "db \<Rightarrow> bool"
  rollback_ok :: "db \<Rightarrow> bool"

definition etat_key :: "etat_row \<Rightarrow> nat \<times> json" where
  "etat_key r = (fst r, fst (snd r))"

definition loc_key :: "loc_row \<Rightarrow> nat \<times> json" where
  "loc_key r = (fst r, fst (snd r))"

text \<open>
  A psycopg2 connection: the committed tables, the tables as the open transaction sees
  them, and the sequence of \<^verbatim>\<open>snapshot_id\<close>, which no rollback takes back.
\<close>

record conn =
  committed :: db
  working :: db
  next_id :: nat

definition commit :: "conn \<Rightarrow> conn" where
  "commit c = c\<lparr>committed := working c\<rparr>"

definition rollback :: "conn \<Rightarrow> conn" where
  "rollback c = c\<lparr>working := committed c\<rparr>"

text \<open>
  \<^verbatim>\<open>cursor.connection.rollback()\<close>: the exception it raised, if any, and the connection
  as it is then.
\<close>

definition do_rollback :: "schema \<Rightarrow> conn \<Rightarrow> exn option \<times> conn" where
  "do_rollback sch c =
     (if rollback_ok sch (working c) then (None, rollback c) else (Some DatabaseError, c))"

text \<open>
  \<^verbatim>\<open>INSERT ... VALUES rows ON CONFLICT (key) DO NOTHING\<close>: the rows in order, a row
  whose key is in the table (or came earlier in the statement) is dropped; the first row
  the store refuses raises. Keys are compared as the decoded values; a store that casts
  the values to the column's type before comparing finds the conflicts found here and
  possibly more.
\<close>

fun insert_rows :: "('r \<Rightarrow> 'k) \<Rightarrow> ('r \<Rightarrow> bool) \<Rightarrow> 'r list \<Rightarrow> 'r list \<Rightarrow> exn + 'r list" where
  "insert_rows key ok tbl [] = Inr tbl"
| "insert_rows key ok tbl (r # rs) =
     (if \<not> ok r then Inl DatabaseError
      else if key r \<in> set (map key tbl) then insert_rows key ok tbl rs
      else insert_rows key ok (tbl @ [r]) rs)"


section \<open>\<^verbatim>\<open>insert_snapshot_and_get_id\<close>\<close>

text \<open>
  \<^verbatim>\<open>INSERT INTO snapshot ... ON CONFLICT (timestamp_capture) DO UPDATE ... RETURNING
  snapshot_id\<close> inside the open transaction: the identifier of the row that has the
  timestamp, or of a new row; either way a value of the sequence is used up. Nothing is
  committed here. When the statement raises, the handler calls
  \<^verbatim>\<open>cursor.connection.rollback()\<close> and returns \<^verbatim>\<open>None\<close>; when that rollback raises
  too, its exception leaves the function. The result is the exception that left the
  function, if any, the connection, and the value returned.
\<close>

definition insert_snapshot_and_get_id ::
  "schema \<Rightarrow> conn \<Rightarrow> datetime \<Rightarrow> exn option \<times> conn \<times> nat option" where
  "insert_snapshot_and_get_id sch c timestamp =
     (if \<not> snapshot_ok sch (working c) timestamp
      then (case do_rollback sch (c\<lparr>next_id := next_id c + 1\<rparr>) of (x, c') \<Rightarrow> (x, c', None))
      else
        (case find (\<lambda>row. snd row = Some timestamp) (snapshot (working c)) of
           Some row \<Rightarrow> (None, c\<lparr>next_id := next_id c + 1\<rparr>, Some (fst row))
         | None \<Rightarrow>
             (None,
              c\<lparr>working := (working c)\<lparr>snapshot := snapshot (working c) @
                                   [(next_id c, Some timestamp)]\<rparr>,
                next_id := next_id c + 1\<rparr>,
              Some (next_id c))))"

section \<open>\<^verbatim>\<open>process_file_content\<close>\<close>

record buffers =
  station_buffer :: "station_row list"
  velo_buffer :: "velo_row list"
  etat_station_buffer :: "etat_row list"
  localisation_velo_buffer :: "loc_row list"

definition empty_buffers :: buffers where
  "empty_buffers = \<lparr>station_buffer = [], velo_buffer = [], etat_station_buffer = [],
     localisation_velo_buffer = []\<rparr>"

text \<open>
  The inner loop \<^verbatim>\<open>for bike in station_data.get('bikes', [])\<close>. \<^verbatim>\<open>bike.get\<close> raises
  \<^verbatim>\<open>AttributeError\<close> when the element is not a \<^verbatim>\<open>dict\<close>.
\<close>

fun bikes_loop :: "nat \<Rightarrow> json \<Rightarrow> json list \<Rightarrow> buffers \<Rightarrow> exn + buffers" where
  "bikes_loop snapshot_id station_code [] b = Inr b"
| "bikes_loop snapshot_id station_code (bike # rest) b =
     (case bike of
        JObj bk \<Rightarrow>
          (let velo_name = lookup bk ''bikeName'' JNull in
           if \<not> truthy velo_name then bikes_loop snapshot_id station_code rest b
           else bikes_loop snapshot_id station_code rest
             (b\<lparr>velo_buffer := velo_buffer b @ [(velo_name, lookup bk ''bikeElectric'' JNull)],
                localisation_velo_buffer := localisation_velo_buffer b @
                  [(snapshot_id, velo_name, station_code, lookup bk ''bikeStatus'' JNull,
                    lookup bk ''dockPosition'' JNull)]\<rparr>))
      | _ \<Rightarrow> Inl AttributeError)"

text \<open>
  The outer loop \<^verbatim>\<open>for station_data in data\<close>. The \<^verbatim>\<open>.get\<close> calls on
  \<^verbatim>\<open>station_data\<close>, on its \<^verbatim>\<open>'station'\<close> and on the station's \<^verbatim>\<open>'gps'\<close> raise
  \<^verbatim>\<open>AttributeError\<close> when the value is not a \<^verbatim>\<open>dict\<close>; the \<^verbatim>\<open>'gps'\<close> is read
  only after the test of the station code.
\<close>

fun stations_loop :: "nat \<Rightarrow> json list \<Rightarrow> buffers \<Rightarrow> exn + buffers" where
  "stations_loop snapshot_id [] b = Inr b"
| "stations_loop snapshot_id (station_data # rest) b =
     (case station_data of
        JObj sd \<Rightarrow>
          (case lookup sd ''station'' (JObj []) of
             JObj station_info \<Rightarrow>
               (let station_code = lookup station_info ''code'' JNull in
                if \<not> truthy station_code then stations_loop snapshot_id rest b
                else
                  (case lookup station_info ''gps'' (JObj []) of
                     JObj gps \<Rightarrow>
                       (let b1 = b\<lparr>station_buffer := station_buffer b @
                                    [(station_code, lookup station_info ''name'' JNull,
                                      lookup gps ''latitude'' JNull, lookup gps ''longitude'' JNull,
                                      lookup station_info ''stationType'' JNull,
                                      lookup station_info ''type'' JNull)],
                                  etat_station_buffer := etat_station_buffer b @
                                    [(snapshot_id, station_code, lookup sd ''state'' JNull,
                                      lookup sd ''nbBike'' JNull, lookup sd ''nbEbike'' JNull,
                                      lookup sd ''nbFreeDock'' JNull)]\<rparr>
                        in case iterate (lookup sd ''bikes'' (JArr [])) of
                             Inl e \<Rightarrow> Inl e
                           | Inr bikes \<Rightarrow>
                               (case bikes_loop snapshot_id station_code bikes b1 of
                                  Inl e \<Rightarrow> Inl e
                                | Inr b2 \<Rightarrow> stations_loop snapshot_id rest b2))
                   | _ \<Rightarrow> Inl AttributeError))
           | _ \<Rightarrow> Inl AttributeError)
      | _ \<Rightarrow> Inl AttributeError)"

text \<open>
  The four \<^verbatim>\<open>execute_values\<close> calls, each on the cursor's open transaction. A call
  gives the exception it raised, if any, and the connection as it is then.
\<close>

definition execute_station :: "schema \<Rightarrow> station_row list \<Rightarrow> conn \<Rightarrow> exn option \<times> conn" where
  "execute_station sch rows c =
     (case insert_rows fst (station_ok sch (working c)) (station (working c)) rows of
        Inl e \<Rightarrow> (Some e, c)
      | Inr t \<Rightarrow> (None, c\<lparr>working := (working c)\<lparr>station := t\<rparr>\<rparr>))"

definition execute_velo :: "schema \<Rightarrow> velo_row list \<Rightarrow> conn \<Rightarrow> exn option \<times> conn" where
  "execute_velo sch rows c =
     (case insert_rows fst (velo_ok sch (working c)) (velo (working c)) rows of
        Inl e \<Rightarrow> (Some e, c)
      | Inr t \<Rightarrow> (None, c\<lparr>working := (working c)\<lparr>velo := t\<rparr>\<rparr>))"

definition execute_etat :: "schema \<Rightarrow> etat_row list \<Rightarrow> conn \<Rightarrow> exn option \<times> conn" where
  "execute_etat sch rows c =
     (case insert_rows etat_key (etat_ok sch (working c)) (etat_station (working c)) rows of
        Inl e \<Rightarrow> (Some e, c)
      | Inr t \<Rightarrow> (None, c\<lparr>working := (working c)\<lparr>etat_station := t\<rparr>\<rparr>))"

definition execute_loc :: "schema \<Rightarrow> loc_row list \<Rightarrow> conn \<Rightarrow> exn option \<times> conn" where
  "execute_loc sch rows c =
     (case insert_rows loc_key (loc_ok sch (working c)) (localisation_velo (working c)) rows of
        Inl e \<Rightarrow> (Some e, c)
      | Inr t \<Rightarrow> (None, c\<lparr>working := (working c)\<lparr>localisation_velo := t\<rparr>\<rparr>))"

definition do_commit :: "schema \<Rightarrow> conn \<Rightarrow> exn option \<times> conn" where
  "do_commit sch c =
     (if commit_ok sch (working c) then (None, commit c) else (Some DatabaseError, c))"

text \<open>Statements in sequence: the first exception ends the sequence.\<close>

definition and_then :: "exn option \<times> conn \<Rightarrow> (conn \<Rightarrow> exn option \<times> conn) \<Rightarrow> exn option \<times> conn" where
  "and_then r f = (case fst r of Some e \<Rightarrow> r | None \<Rightarrow> f (snd r))"

text \<open>
  Lines 190 to 216: a buffer is written only when it is not empty.
\<close>

definition inserts :: "schema \<Rightarrow> buffers \<Rightarrow> conn \<Rightarrow> exn option \<times> conn" where
  "inserts sch b c =
     and_then (and_then (and_then
       (if station_buffer b \<noteq> [] then execute_station sch (station_buffer b) c else (None, c))
       (\<lambda>c. if velo_buffer b \<noteq> [] then execute_velo sch (velo_buffer b) c else (None, c)))
       (\<lambda>c. if etat_station_buffer b \<noteq> [] then execute_etat sch (etat_station_buffer b) c
            else (None, c)))
       (\<lambda>c. if localisation_velo_buffer b \<noteq> [] then execute_loc sch (localisation_velo_buffer b) c
            else (None, c))"

text \<open>Lines 190 to 218: the inserts, then \<^verbatim>\<open>cursor.connection.commit()\<close>.\<close>

definition write_batches :: "schema \<Rightarrow> buffers \<Rightarrow> conn \<Rightarrow> exn option \<times> conn" where
  "write_batches sch b c = and_then (inserts sch b c) (do_commit sch)"

record errors =
  invalid_format :: nat
  snapshot_error :: nat
  generic_error :: nat

text \<open>
  The body of the \<^verbatim>\<open>try\<close> (lines 141 to 218): the exception it raised, if any, the
  connection and the counters as they are then. A document that is not a list counts under
  \<^verbatim>\<open>invalid_format\<close> and returns; nothing is rolled back or committed on that path.
\<close>

definition try_body :: "schema \<Rightarrow> filetext \<Rightarrow> nat \<Rightarrow> conn \<Rightarrow> errors \<Rightarrow> exn option \<times> conn \<times> errors" where
  "try_body sch content snapshot_id c errs =
     (case json_loads content of
        Inl e \<Rightarrow> (Some e, c, errs)
      | Inr data \<Rightarrow>
          (case data of
             JArr items \<Rightarrow>
               (case stations_loop snapshot_id items empty_buffers of
                  Inl e \<Rightarrow> (Some e, c, errs)
                | Inr b \<Rightarrow> (case write_batches sch b c of (r, c') \<Rightarrow> (r, c', errs)))
           | _ \<Rightarrow> (None, c, errs\<lparr>invalid_format := invalid_format errs + 1\<rparr>)))"

text \<open>
  The whole function: the exception that left it, if any, the connection and the
  counters. The handler of the \<^verbatim>\<open>try\<close> calls \<^verbatim>\<open>cursor.connection.rollback()\<close>
  first; when that raises, the exception leaves the function and line 223 is not reached.
\<close>

definition process_file_content ::
  "schema \<Rightarrow> string \<Rightarrow> filetext \<Rightarrow> datetime \<Rightarrow> conn \<Rightarrow> errors
     \<Rightarrow> exn option \<times> conn \<times> errors" where
  "process_file_content sch filename content timestamp c errs =
     (case insert_snapshot_and_get_id sch c timestamp of
        (Some x, c1, r) \<Rightarrow> (Some x, c1, errs)
      | (None, c1, None) \<Rightarrow> (None, c1, errs\<lparr>snapshot_error := snapshot_error errs + 1\<rparr>)
      | (None, c1, Some snapshot_id) \<Rightarrow>
          (case try_body sch content snapshot_id c1 errs of
             (Some e, c2, errs2) \<Rightarrow>
               (case do_rollback sch c2 of
                  (Some x, c3) \<Rightarrow> (Some x, c3, errs2)
                | (None, c3) \<Rightarrow>
                    (None, c3, errs2\<lparr>generic_error := generic_error errs2 + 1\<rparr>))
           | (None, c2, errs2) \<Rightarrow> (None, c2, errs2)))"

section \<open>The progress record and the driver\<close>

text \<open>
  What a run finds outside the program: the names \<^verbatim>\<open>os.listdir\<close> gives for the data
  folder, what reading a file gives (\<^verbatim>\<open>open\<close> or \<^verbatim>\<open>gzip.open\<close> by the extension,
  then \<^verbatim>\<open>read\<close>: an exception or the text), the store's verdicts, and what writing
  a progress record does. \<^verbatim>\<open>save_progress\<close> opens the file with mode \<^verbatim>\<open>"w"\<close>,
  which empties it, and then writes: it succeeds, or raises \<^verbatim>\<open>OSError\<close> at the
  \<^verbatim>\<open>open\<close> (the file stays as it was), or raises after it, with the file left empty
  or holding the beginning of the text. The folder \<^verbatim>\<open>DATA_FOLDER\<close> that
  \<^verbatim>\<open>rebuild_progress_from_database\<close> lists is the folder the entry point passes to
  \<^verbatim>\<open>import_data_from_folder\<close>; \<^verbatim>\<open>get_db_connection\<close> is taken to succeed, and a
  new connection sees the committed tables.
\<close>

datatype save_outcome = Saved | Fails_at_open | Fails_when_empty | Fails_midway

record env =
  listdir :: "string list"
  read_file :: "string \<Rightarrow> exn + filetext"
  store :: schema
  save :: "json \<Rightarrow> save_outcome"

text \<open>The progress file: absent, present but unreadable, or holding a text.\<close>

datatype progress_file = Missing | Unreadable | Holds filetext

text \<open>What outlives a run: the progress file and the store's committed tables.\<close>

record world =
  progress_store :: progress_file
  database :: db
  sequence :: nat

definition candidate :: "string \<Rightarrow> bool" where
  "candidate f = (endswith f ''.json'' \<or> endswith f ''.gz'')"

text \<open>
  The loop of \<^verbatim>\<open>rebuild_progress_from_database\<close>: \<^verbatim>\<open>timestamp in
  existing_snapshots\<close>, where the timestamp of a name that does not parse is
  \<^verbatim>\<open>None\<close>.
\<close>

fun rebuild_loop :: "datetime option list \<Rightarrow> string list \<Rightarrow> string list \<Rightarrow> string list" where
  "rebuild_loop existing_snapshots [] done_files = done_files"
| "rebuild_loop existing_snapshots (filename # rest) done_files =
     (let timestamp = parse_timestamp_from_filename filename in
      if timestamp \<in> set existing_snapshots
      then rebuild_loop existing_snapshots rest (done_files @ [filename])
      else rebuild_loop existing_snapshots rest done_files)"

definition rebuild_progress_from_database :: "env \<Rightarrow> world \<Rightarrow> json" where
  "rebuild_progress_from_database e w =
     (let existing_snapshots = map snd (snapshot (database w));
          all_files = filter candidate (listdir e);
          done_files = rebuild_loop existing_snapshots all_files []
      in JObj [(''done'', JArr (map JStr done_files))])"

definition load_progress :: "env \<Rightarrow> world \<Rightarrow> json" where
  "load_progress e w =
     (case progress_store w of
        Missing \<Rightarrow> rebuild_progress_from_database e w
      | Unreadable \<Rightarrow> rebuild_progress_from_database e w
      | Holds content \<Rightarrow>
          (case content of
             Blank \<Rightarrow> rebuild_progress_from_database e w
           | Malformed \<Rightarrow> rebuild_progress_from_database e w
           | Doc j \<Rightarrow> j))"

text \<open>
  \<^verbatim>\<open>progress["done"]\<close>: \<^verbatim>\<open>KeyError\<close> on a \<^verbatim>\<open>dict\<close> without the key,
  \<^verbatim>\<open>TypeError\<close> on a value that is not a \<^verbatim>\<open>dict\<close>.
\<close>

definition subscript_done :: "json \<Rightarrow> exn + json" where
  "subscript_done p =
     (case p of
        JObj kvs \<Rightarrow> (case map_of kvs ''done'' of Some v \<Rightarrow> Inr v | None \<Rightarrow> Inl KeyError)
      | _ \<Rightarrow> Inl TypeError)"

fun set_key :: "string \<Rightarrow> json \<Rightarrow> (string \<times> json) list \<Rightarrow> (string \<times> json) list" where
  "set_key k v [] = [(k, v)]"
| "set_key k v (kv # kvs) = (if fst kv = k then (k, v) # kvs else kv # set_key k v kvs)"

text \<open>
  \<^verbatim>\<open>progress["done"].append(filename)\<close>: only a list has \<^verbatim>\<open>append\<close>; the list is
  changed in place, inside the \<^verbatim>\<open>dict\<close>.
\<close>

definition append_done :: "json \<Rightarrow> string \<Rightarrow> exn + json" where
  "append_done p filename =
     (case subscript_done p of
        Inl e \<Rightarrow> Inl e
      | Inr v \<Rightarrow>
          (case v of
             JArr xs \<Rightarrow>
               (case p of
                  JObj kvs \<Rightarrow> Inr (JObj (set_key ''done'' (JArr (xs @ [JStr filename])) kvs))
                | _ \<Rightarrow> Inl TypeError)
           | _ \<Rightarrow> Inl AttributeError))"

text \<open>The state of the loop over the remaining files.\<close>

record loop_state =
  progress :: json
  pfile :: progress_file
  cursor :: conn
  counters :: errors

definition count_generic :: "loop_state \<Rightarrow> loop_state" where
  "count_generic st =
     st\<lparr>counters := (counters st)\<lparr>generic_error := generic_error (counters st) + 1\<rparr>\<rparr>"

text \<open>What a write of the progress record leaves in the file.\<close>

definition written :: "save_outcome \<Rightarrow> json \<Rightarrow> progress_file \<Rightarrow> progress_file" where
  "written r p old =
     (case r of Saved \<Rightarrow> Holds (Doc p) | Fails_at_open \<Rightarrow> old
      | Fails_when_empty \<Rightarrow> Holds Blank | Fails_midway \<Rightarrow> Holds Malformed)"

text \<open>
  \<^verbatim>\<open>progress["done"].append(filename); save_progress(progress)\<close>: the exception raised,
  if any, and the state then. An \<^verbatim>\<open>append\<close> that worked stays in memory when the
  write fails.
\<close>

definition mark_done :: "env \<Rightarrow> string \<Rightarrow> loop_state \<Rightarrow> exn option \<times> loop_state" where
  "mark_done e filename st =
     (case append_done (progress st) filename of
        Inl x \<Rightarrow> (Some x, st)
      | Inr p \<Rightarrow>
          (if save e p = Saved then None else Some OSError,
           st\<lparr>progress := p, pfile := written (save e p) p (pfile st)\<rparr>))"

text \<open>
  The body of \<^verbatim>\<open>for filename in remaining_files\<close>. In the branch of a name without
  timestamp nothing catches an exception. In the other branch the \<^verbatim>\<open>try\<close> spans the
  read, \<^verbatim>\<open>process_file_content\<close>, the \<^verbatim>\<open>append\<close> and \<^verbatim>\<open>save_progress\<close>, and
  its handler counts a \<^verbatim>\<open>generic_error\<close> and goes on: an exception that leaves
  \<^verbatim>\<open>process_file_content\<close> skips the \<^verbatim>\<open>append\<close> and the write.
\<close>

definition process_one :: "env \<Rightarrow> string \<Rightarrow> loop_state \<Rightarrow> exn option \<times> loop_state" where
  "process_one e filename st =
     (case parse_timestamp_from_filename filename of
        None \<Rightarrow> mark_done e filename (count_generic st)
      | Some timestamp \<Rightarrow>
          (case read_file e filename of
             Inl x \<Rightarrow> (None, count_generic st)
           | Inr content \<Rightarrow>
               (case process_file_content (store e) filename content timestamp (cursor st)
                       (counters st) of
                  (Some x, c, errs) \<Rightarrow> (None, count_generic (st\<lparr>cursor := c, counters := errs\<rparr>))
                | (None, c, errs) \<Rightarrow>
                    (case mark_done e filename (st\<lparr>cursor := c, counters := errs\<rparr>) of
                       (Some x, st') \<Rightarrow> (None, count_generic st')
                     | (None, st') \<Rightarrow> (None, st')))))"

fun files_loop :: "env \<Rightarrow> string list \<Rightarrow> loop_state \<Rightarrow> exn option \<times> loop_state" where
  "files_loop e [] st = (None, st)"
| "files_loop e (filename # rest) st =
     (case process_one e filename st of
        (Some x, st') \<Rightarrow> (Some x, st')
      | (None, st') \<Rightarrow> files_loop e rest st')"

text \<open>
  A run: the exception that ended it, if any, the counters, and the world it leaves.
  Closing the connection (or the end of the process) drops what was not committed.
\<close>

record run =
  raised :: "exn option"
  reported :: errors
  after :: world

definition connect :: "world \<Rightarrow> conn" where
  "connect w = \<lparr>committed = database w, working = database w, next_id = sequence w\<rparr>"

definition no_errors :: errors where
  "no_errors = \<lparr>invalid_format = 0, snapshot_error = 0, generic_error = 0\<rparr>"

definition import_data_from_folder :: "env \<Rightarrow> world \<Rightarrow> run" where
  "import_data_from_folder e w =
     (let prog = load_progress e w in
      case subscript_done prog of
        Inl x \<Rightarrow> \<lparr>raised = Some x, reported = no_errors, after = w\<rparr>
      | Inr v \<Rightarrow>
          (case to_set v of
             Inl x \<Rightarrow> \<lparr>raised = Some x, reported = no_errors, after = w\<rparr>
           | Inr done_files \<Rightarrow>
               (let all_files = filter candidate (listdir e);
                    remaining_files = filter (\<lambda>f. JStr f \<notin> set done_files) all_files
                in case files_loop e remaining_files
                          \<lparr>progress = prog, pfile = progress_store w, cursor = connect w,
                           counters = no_errors\<rparr> of
                     (r, st) \<Rightarrow>
                       \<lparr>raised = r, reported = counters st,
                        after = \<lparr>progress_store = pfile st, database = committed (cursor st),
                                 sequence = next_id (cursor st)\<rparr>\<rparr>)))"


section \<open>Notions used in the statements\<close>

text \<open>
  The number \<^verbatim>\<open>int\<close> reads in a string of digits, and the fields as the groups of the
  format accept them: one or two digits that read the number, the day also as a blank and
  one digit.
\<close>

definition decimal :: "string \<Rightarrow> nat" where
  "decimal s = foldl (\<lambda>n c. 10 * n + digit_val c) 0 s"

definition short_field :: "string \<Rightarrow> nat \<Rightarrow> bool" where
  "short_field s n = (s \<noteq> [] \<and> length s \<le> 2 \<and> list_all digit s \<and> decimal s = n)"

definition short_day :: "string \<Rightarrow> nat \<Rightarrow> bool" where
  "short_day s n =
     (short_field s n
      \<or> (case s of [a, b] \<Rightarrow> a = CHR '' '' \<and> digit b \<and> digit_val b = n | _ \<Rightarrow> False))"

text \<open>
  A file that a run leaves for a later run: its name parses and reading it raises.
\<close>

definition retried :: "env \<Rightarrow> string \<Rightarrow> bool" where
  "retried e f = (parse_timestamp_from_filename f \<noteq> None \<and> isl (read_file e f))"

text \<open>
  A progress file the pipeline can start from: absent, unreadable, blank, not JSON, or
  an object whose \<^verbatim>\<open>done\<close> is a list of hashable values (of strings, when
  \<^verbatim>\<open>save_progress\<close> wrote it).
\<close>

definition usable :: "progress_file \<Rightarrow> bool" where
  "usable s =
     (case s of
        Holds (Doc j) \<Rightarrow>
          (case subscript_done j of Inr (JArr xs) \<Rightarrow> list_all hashable xs | _ \<Rightarrow> False)
      | _ \<Rightarrow> True)"

section \<open>Concrete inputs\<close>

text \<open>The inputs at which the statements below are evaluated.\<close>

definition eight_oclock :: datetime where
  "eight_oclock = \<lparr>year = 2024, month = 1, day = 1, hour = 8, minute = 0, second = 0\<rparr>"

definition five_past :: datetime where
  "five_past = \<lparr>year = 2024, month = 1, day = 1, hour = 8, minute = 5, second = 0\<rparr>"

definition accept_all :: schema where
  "accept_all = \<lparr>snapshot_ok = (\<lambda>d t. True), station_ok = (\<lambda>d r. True),
     velo_ok = (\<lambda>d r. True), etat_ok = (\<lambda>d r. True), loc_ok = (\<lambda>d r. True),
     commit_ok = (\<lambda>d. True), rollback_ok = (\<lambda>d. True)\<rparr>"

definition empty_db :: db where
  "empty_db = \<lparr>snapshot = [], station = [], velo = [], etat_station = [],
     localisation_velo = []\<rparr>"

text \<open>A store without rows and a progress file that lists no file.\<close>

definition fresh_world :: world where
  "fresh_world = \<lparr>progress_store = Holds (Doc (JObj [(''done'', JArr [])])),
     database = empty_db, sequence = 1\<rparr>"

text \<open>One station with two bikes, as the snapshot files hold it.\<close>

definition one_station :: json where
  "one_station = JArr [JObj [
     (''station'', JObj [(''code'', JStr ''16107''), (''name'', JStr ''Test''),
        (''gps'', JObj [(''latitude'', JFloat 488 (-1)), (''longitude'', JFloat 23 (-1))])]),
     (''bikes'', JArr [
        JObj [(''bikeName'', JStr ''BIKE1''), (''bikeElectric'', JBool True),
              (''bikeStatus'', JStr ''free''), (''dockPosition'', JInt 1)],
        JObj [(''bikeName'', JStr ''BIKE2''), (''bikeElectric'', JBool False),
              (''bikeStatus'', JStr ''free''), (''dockPosition'', JInt 2)]]),
     (''nbBike'', JInt 2), (''nbEbike'', JInt 1), (''nbFreeDock'', JInt 5),
     (''state'', JStr ''ok'')]]"

text \<open>
  A folder of two snapshot files: the first holds a JSON object, the second an empty list.
\<close>

definition object_then_list :: env where
  "object_then_list = \<lparr>
     listdir = [''a_20240101_080000_x.json'', ''b_20240101_080500_x.json'', ''notes.txt''],
     read_file = (\<lambda>f. if f = ''a_20240101_080000_x.json'' then Inr (Doc (JObj []))
        else if f = ''b_20240101_080500_x.json'' then Inr (Doc (JArr []))
        else Inl OSError),
     store = accept_all, save = (\<lambda>p. Saved)\<rparr>"

text \<open>A folder whose only snapshot file is not valid JSON.\<close>

definition one_malformed :: env where
  "one_malformed = \<lparr>listdir = [''a_20240101_080000_x.json''],
     read_file = (\<lambda>f. Inr Malformed), store = accept_all, save = (\<lambda>p. Saved)\<rparr>"

text \<open>A folder whose only snapshot file holds a JSON object.\<close>

definition one_object :: env where
  "one_object = \<lparr>listdir = [''a_20240101_080000_x.json''],
     read_file = (\<lambda>f. Inr (Doc (JObj []))), store = accept_all, save = (\<lambda>p. Saved)\<rparr>"

text \<open>A store that refuses the location row of \<^verbatim>\<open>BIKE2\<close>.\<close>

definition refuse_bike2 :: schema where
  "refuse_bike2 = accept_all\<lparr>loc_ok := (\<lambda>d r. fst (snd r) \<noteq> JStr ''BIKE2'')\<rparr>"

text \<open>
  A store that holds the snapshot of 08:00, and a folder with a file of that time, a file
  of 08:05, a file whose name does not parse and a file that is no candidate.
\<close>

definition after_eight :: world where
  "after_eight = \<lparr>progress_store = Missing,
     database = empty_db\<lparr>snapshot := [(1, Some eight_oclock)]\<rparr>, sequence = 2\<rparr>"

definition four_names :: env where
  "four_names = \<lparr>
     listdir = [''a_20240101_080000_x.json'', ''b_20240101_080500_x.json'',
                ''velib_20240101_080000.json'', ''notes.txt''],
     read_file = (\<lambda>f. Inr (Doc (JArr []))), store = accept_all, save = (\<lambda>p. Saved)\<rparr>"

text \<open>A folder whose only snapshot file cannot be read.\<close>

definition unreadable_file :: env where
  "unreadable_file = \<lparr>listdir = [''c_20240101_081000_x.json''],
     read_file = (\<lambda>f. Inl OSError), store = accept_all, save = (\<lambda>p. Saved)\<rparr>"

text \<open>Two good snapshot files, and a progress file that cannot be opened for writing.\<close>

definition disk_full :: env where
  "disk_full = \<lparr>
     listdir = [''a_20240101_080000_x.json'', ''b_20240101_080500_x.json''],
     read_file = (\<lambda>f. if f = ''a_20240101_080000_x.json'' then Inr (Doc one_station)
        else Inr (Doc (JArr []))),
     store = accept_all, save = (\<lambda>p. Fails_at_open)\<rparr>"

text \<open>The same disk, and a folder whose only file has a name that does not parse.\<close>

definition disk_full_bad_name :: env where
  "disk_full_bad_name = \<lparr>listdir = [''velib_20240101_080000.json''],
     read_file = (\<lambda>f. Inr (Doc (JArr []))), store = accept_all, save = (\<lambda>p. Fails_at_open)\<rparr>"

text \<open>The state of the loop at its first file, on the fresh world.\<close>

definition first_state :: loop_state where
  "first_state = \<lparr>progress = JObj [(''done'', JArr [])], pfile = progress_store fresh_world,
     cursor = connect fresh_world, counters = no_errors\<rparr>"

text \<open>
  A folder with a good snapshot file, a file whose name does not parse and a file that
  cannot be read.
\<close>

definition mixed_folder :: env where
  "mixed_folder = \<lparr>
     listdir = [''a_20240101_080000_x.json'', ''velib_20240101_080500.json'',
                ''c_20240101_081000_x.json''],
     read_file = (\<lambda>f. if f = ''a_20240101_080000_x.json'' then Inr (Doc one_station)
        else Inl OSError),
     store = accept_all, save = (\<lambda>p. Saved)\<rparr>"

text \<open>
  The connection after the file of 08:00 with \<open>one_station\<close> was processed on the
  fresh world, and the observations of a later file: the same station under another name
  and in another state, with one of its bikes.
\<close>

definition stocked :: conn where
  "stocked = fst (snd (process_file_content accept_all ''a_20240101_080000_x.json''
     (Doc one_station) eight_oclock (connect fresh_world) no_errors))"

definition later_items :: "json list" where
  "later_items = [JObj [
     (''station'', JObj [(''code'', JStr ''16107''), (''name'', JStr ''Renamed''),
        (''gps'', JObj [(''latitude'', JFloat 489 (-1)), (''longitude'', JFloat 24 (-1))])]),
     (''bikes'', JArr [
        JObj [(''bikeName'', JStr ''BIKE1''), (''bikeElectric'', JBool False),
              (''bikeStatus'', JStr ''busy''), (''dockPosition'', JInt 7)]]),
     (''nbBike'', JInt 1), (''nbEbike'', JInt 0), (''nbFreeDock'', JInt 6),
     (''state'', JStr ''in_use'')]]"

text \<open>The time 00:08:00, which the name \<^verbatim>\<open>a_20240101_080_x.json\<close> reads as.\<close>

definition eight_past_midnight :: datetime where
  "eight_past_midnight = \<lparr>year = 2024, month = 1, day = 1, hour = 0, minute = 8, second = 0\<rparr>"

text \<open>A store whose only snapshot row has no timestamp.\<close>

definition null_row :: world where
  "null_row = \<lparr>progress_store = Missing,
     database = empty_db\<lparr>snapshot := [(1, None)]\<rparr>, sequence = 2\<rparr>"

text \<open>
  A store that refuses the location row of \<^verbatim>\<open>BIKE2\<close> and whose connection is lost
  by then: the rollback raises.
\<close>

definition refuse_bike2_lost :: schema where
  "refuse_bike2_lost = refuse_bike2\<lparr>rollback_ok := (\<lambda>d. False)\<rparr>"

text \<open>
  A store that ends a session left idle inside a transaction: once a snapshot row is
  pending, the next insert into \<^verbatim>\<open>snapshot\<close> and the rollback raise. The folder is
  that of \<open>object_then_list\<close>.
\<close>

definition idle_killed :: env where
  "idle_killed = object_then_list\<lparr>store :=
     accept_all\<lparr>snapshot_ok := (\<lambda>d t. snapshot d = []),
                rollback_ok := (\<lambda>d. snapshot d = [])\<rparr>\<rparr>"

text \<open>One good snapshot file, and a store whose connection is lost from the start.\<close>

definition connection_lost :: env where
  "connection_lost = \<lparr>listdir = [''a_20240101_080000_x.json''],
     read_file = (\<lambda>f. Inr (Doc one_station)),
     store = accept_all\<lparr>snapshot_ok := (\<lambda>d t. False), rollback_ok := (\<lambda>d. False)\<rparr>,
     save = (\<lambda>p. Saved)\<rparr>"

section \<open>The filename parser\<close>

lemma split_nonempty: "split c s \<noteq> []"
  by (induction s) (auto split: list.splits)

lemma split_no_sep: "c \<notin> set p \<Longrightarrow> split c p = [p]"
  by (induction p) auto

lemma split_append: "c \<notin> set p \<Longrightarrow> split c (p @ c # q) = p # split c q"
  by (induction p) (auto split: list.splits)

lemma split_length: "length (split c s) = Suc (length (filter (\<lambda>x. x = c) s))"
  by (induction s) (auto split: list.splits simp: split_nonempty)

lemma of_char_dchar: "k < 10 \<Longrightarrow> (of_char (dchar k) :: nat) = 48 + k"
  by (simp add: dchar_def)

lemma digit_dchar: "k < 10 \<Longrightarrow> digit (dchar k)"
  by (simp add: digit_def of_char_dchar)

lemma digit_val_dchar: "k < 10 \<Longrightarrow> digit_val (dchar k) = k"
  by (simp add: digit_val_def of_char_dchar)

lemma between_dchar: "k < 10 \<Longrightarrow> between lo hi (dchar k) = (lo \<le> k \<and> k \<le> hi)"
  by (simp add: between_def digit_dchar digit_val_dchar)

lemma dchar_not_sep: "k < 10 \<Longrightarrow> dchar k \<noteq> CHR ''_''"
proof
  assume k: "k < 10" and "dchar k = CHR ''_''"
  then have "(of_char (dchar k) :: nat) = of_char CHR ''_''" by simp
  with k show False by (simp add: of_char_dchar)
qed

lemma dchar_not_blank: "k < 10 \<Longrightarrow> dchar k \<noteq> CHR '' ''"
proof
  assume k: "k < 10" and "dchar k = CHR '' ''"
  then have "(of_char (dchar k) :: nat) = of_char CHR '' ''" by simp
  with k show False by (simp add: of_char_dchar)
qed

lemmas dchar_simps = digit_dchar digit_val_dchar between_dchar dchar_not_sep dchar_not_blank

lemma pad2_value: "10 * (n div 10) + n mod 10 = (n::nat)"
  by simp

lemma pad4_value:
  "1000 * (y div 1000) + 100 * (y div 100 mod 10) + 10 * (y div 10 mod 10) + y mod 10 = (y::nat)"
proof -
  have a: "10 * (y div 10) + y mod 10 = y" by simp
  have b: "10 * (y div 100) + y div 10 mod 10 = y div 10"
    using mult_div_mod_eq[of 10 "y div 10"] by (simp add: div_mult2_eq[symmetric])
  have c: "10 * (y div 1000) + y div 100 mod 10 = y div 100"
    using mult_div_mod_eq[of 10 "y div 100"] by (simp add: div_mult2_eq[symmetric])
  from a b c show ?thesis by linarith
qed

lemma group_Y_pad4: "y \<le> 9999 \<Longrightarrow> group_Y (pad4 y @ r) = [(y, r)]"
proof -
  assume y: "y \<le> 9999"
  then have "y div 1000 < 10" by simp
  then show ?thesis by (simp add: group_Y_def pad4_def dchar_simps pad4_value)
qed

lemma group_m_pad2:
  "1 \<le> m \<Longrightarrow> m \<le> 12 \<Longrightarrow> \<exists>xs. group_m (pad2 m @ r) = (m, r) # xs"
proof -
  assume m: "1 \<le> m" "m \<le> 12"
  then have a: "m div 10 < 10" by simp
  from m have "(m div 10 = 1 \<and> m mod 10 \<le> 2) \<or> (m div 10 = 0 \<and> 1 \<le> m mod 10)"
    by presburger
  then show ?thesis using a pad2_value[of m]
    by (auto simp add: group_m_def pad2_def two_def one_def dchar_simps)
qed

lemma group_d_pad2:
  "1 \<le> d \<Longrightarrow> d \<le> 31 \<Longrightarrow> \<exists>xs. group_d (pad2 d @ r) = (d, r) # xs"
proof -
  assume d: "1 \<le> d" "d \<le> 31"
  then have a: "d div 10 < 10" by simp
  from d have "(d div 10 = 3 \<and> d mod 10 \<le> 1) \<or> (1 \<le> d div 10 \<and> d div 10 \<le> 2)
      \<or> (d div 10 = 0 \<and> 1 \<le> d mod 10)"
    by presburger
  then show ?thesis using a pad2_value[of d]
    by (auto simp add: group_d_def pad2_def two_def one_def dchar_simps)
qed

lemma group_H_pad2: "h \<le> 23 \<Longrightarrow> \<exists>xs. group_H (pad2 h @ r) = (h, r) # xs"
proof -
  assume h: "h \<le> 23"
  then have a: "h div 10 < 10" by simp
  from h have "(h div 10 = 2 \<and> h mod 10 \<le> 3) \<or> (h div 10 \<le> 1)" by presburger
  then show ?thesis using a pad2_value[of h]
    by (auto simp add: group_H_def pad2_def two_def one_def dchar_simps)
qed

lemma group_M_pad2: "n \<le> 59 \<Longrightarrow> \<exists>xs. group_M (pad2 n @ r) = (n, r) # xs"
proof -
  assume n: "n \<le> 59"
  then have a: "n div 10 < 10" "n div 10 \<le> 5" by simp_all
  show ?thesis using a pad2_value[of n]
    by (auto simp add: group_M_def pad2_def two_def one_def dchar_simps)
qed

lemma group_S_pad2: "n \<le> 59 \<Longrightarrow> \<exists>xs. group_S (pad2 n @ r) = (n, r) # xs"
proof -
  assume n: "n \<le> 59"
  then have a: "n div 10 < 10" "n div 10 \<le> 5" by simp_all
  show ?thesis using a pad2_value[of n]
    by (auto simp add: group_S_def pad2_def two_def one_def dchar_simps)
qed

lemma format_matches_stamp:
  assumes "valid_datetime t"
  shows "\<exists>zs. format_matches (stamp t @ r) = (t, r) # zs"
proof -
  from assms have y: "year t \<le> 9999" and m: "1 \<le> month t" "month t \<le> 12"
    and d: "1 \<le> day t" "day t \<le> 31" and h: "hour t \<le> 23" and mi: "minute t \<le> 59"
    and s: "second t \<le> 59"
    by (auto simp add: valid_datetime_def days_in_month_def split: if_splits)
  obtain x1 where 1: "\<And>r. group_m (pad2 (month t) @ r) = (month t, r) # x1 r"
    using group_m_pad2[OF m] by metis
  obtain x2 where 2: "\<And>r. group_d (pad2 (day t) @ r) = (day t, r) # x2 r"
    using group_d_pad2[OF d] by metis
  obtain x3 where 3: "\<And>r. group_H (pad2 (hour t) @ r) = (hour t, r) # x3 r"
    using group_H_pad2[OF h] by metis
  obtain x4 where 4: "\<And>r. group_M (pad2 (minute t) @ r) = (minute t, r) # x4 r"
    using group_M_pad2[OF mi] by metis
  obtain x5 where 5: "\<And>r. group_S (pad2 (second t) @ r) = (second t, r) # x5 r"
    using group_S_pad2[OF s] by metis
  show ?thesis
    unfolding format_matches_def stamp_def
    by (simp add: group_Y_pad4[OF y] 1 2 3 4 5 literal_def List.bind_def)
qed

lemma strptime_stamp:
  assumes "valid_datetime t"
  shows "strptime (stamp t @ r) = (if r = [] then Some t else None)"
proof -
  obtain zs where "format_matches (stamp t @ r) = (t, r) # zs"
    using format_matches_stamp[OF assms] by blast
  then show ?thesis using assms by (simp add: strptime_def)
qed

lemma stamp_tokens:
  assumes "valid_datetime t"
  shows "\<exists>date time. stamp t = date @ ''_'' @ time \<and> CHR ''_'' \<notin> set date \<and> CHR ''_'' \<notin> set time"
proof -
  from assms have b: "year t div 1000 < 10" "month t div 10 < 10" "day t div 10 < 10"
    "hour t div 10 < 10" "minute t div 10 < 10" "second t div 10 < 10"
    by (auto simp add: valid_datetime_def days_in_month_def split: if_splits)
  let ?date = "pad4 (year t) @ pad2 (month t) @ pad2 (day t)"
  let ?time = "pad2 (hour t) @ pad2 (minute t) @ pad2 (second t)"
  have "stamp t = ?date @ ''_'' @ ?time" by (simp add: stamp_def)
  moreover have "CHR ''_'' \<notin> set ?date"
    using b dchar_not_sep[of "year t div 1000"] dchar_not_sep[of "year t div 100 mod 10"]
      dchar_not_sep[of "year t div 10 mod 10"] dchar_not_sep[of "year t mod 10"]
      dchar_not_sep[of "month t div 10"] dchar_not_sep[of "month t mod 10"]
      dchar_not_sep[of "day t div 10"] dchar_not_sep[of "day t mod 10"]
    by (auto simp add: pad4_def pad2_def)
  moreover have "CHR ''_'' \<notin> set ?time"
    using b dchar_not_sep[of "hour t div 10"] dchar_not_sep[of "hour t mod 10"]
      dchar_not_sep[of "minute t div 10"] dchar_not_sep[of "minute t mod 10"]
      dchar_not_sep[of "second t div 10"] dchar_not_sep[of "second t mod 10"]
    by (auto simp add: pad2_def)
  ultimately show ?thesis by blast
qed

lemma parse_three_tokens:
  assumes "CHR ''_'' \<notin> set prefix" "CHR ''_'' \<notin> set date" "CHR ''_'' \<notin> set tok"
  shows "parse_timestamp_from_filename (prefix @ ''_'' @ date @ ''_'' @ tok)
           = strptime (date @ ''_'' @ tok)"
    and "parse_timestamp_from_filename (prefix @ ''_'' @ date @ ''_'' @ tok @ ''_'' @ rest)
           = strptime (date @ ''_'' @ tok)"
proof -
  have "split CHR ''_'' (prefix @ ''_'' @ date @ ''_'' @ tok) = [prefix, date, tok]"
    using assms by (simp add: split_append split_no_sep)
  then show "parse_timestamp_from_filename (prefix @ ''_'' @ date @ ''_'' @ tok)
           = strptime (date @ ''_'' @ tok)"
    by (simp add: parse_timestamp_from_filename_def)
  have "split CHR ''_'' (prefix @ ''_'' @ date @ ''_'' @ tok @ ''_'' @ rest)
          = prefix # date # tok # split CHR ''_'' rest"
    using assms by (simp add: split_append)
  then show "parse_timestamp_from_filename (prefix @ ''_'' @ date @ ''_'' @ tok @ ''_'' @ rest)
           = strptime (date @ ''_'' @ tok)"
    by (simp add: parse_timestamp_from_filename_def)
qed

lemma parse_few_tokens:
  assumes "length (filter (\<lambda>x. x = CHR ''_'') f) < 2"
  shows "parse_timestamp_from_filename f = None"
proof -
  have "length (split CHR ''_'' f) < 3" using assms by (simp add: split_length)
  then show ?thesis
    by (cases "split CHR ''_'' f" rule: list.exhaust)
       (auto simp add: parse_timestamp_from_filename_def split: list.splits)
qed

lemma digit_not_sep: "digit c \<Longrightarrow> c \<noteq> CHR ''_''"
  by (auto simp add: digit_def)

lemma between_digit: "between lo hi c \<Longrightarrow> digit c"
  by (simp add: between_def)

lemma decimal_one: "decimal [a] = digit_val a"
  by (simp add: decimal_def)

lemma decimal_two: "decimal [a, b] = 10 * digit_val a + digit_val b"
  by (simp add: decimal_def)

lemma two_member:
  assumes "(v, r) \<in> set (two p q s)" and "\<And>c. p c \<Longrightarrow> digit c" and "\<And>c. q c \<Longrightarrow> digit c"
  shows "\<exists>m. s = m @ r \<and> short_field m v"
proof -
  from assms(1) obtain a b where s: "s = a # b # r" and pq: "p a" "q b"
    and v: "v = 10 * digit_val a + digit_val b"
    by (auto simp add: two_def split: list.splits if_splits)
  have "short_field [a, b] v" using pq v assms(2,3) by (simp add: short_field_def decimal_two)
  with s show ?thesis by (intro exI[of _ "[a, b]"]) simp
qed

lemma one_member:
  assumes "(v, r) \<in> set (one p s)" and "\<And>c. p c \<Longrightarrow> digit c"
  shows "\<exists>m. s = m @ r \<and> short_field m v"
proof -
  from assms(1) obtain a where s: "s = a # r" and pa: "p a" and v: "v = digit_val a"
    by (auto simp add: one_def split: list.splits if_splits)
  have "short_field [a] v" using pa v assms(2) by (simp add: short_field_def decimal_one)
  with s show ?thesis by (intro exI[of _ "[a]"]) simp
qed

lemma group_m_member:
  assumes "(v, r) \<in> set (group_m s)"
  shows "\<exists>m. s = m @ r \<and> short_field m v"
  using assms two_member[of v r _ _ s] one_member[of v r _ s] between_digit
  unfolding group_m_def by (auto simp del: One_nat_def)

lemma group_H_member:
  assumes "(v, r) \<in> set (group_H s)"
  shows "\<exists>m. s = m @ r \<and> short_field m v"
  using assms two_member[of v r _ _ s] one_member[of v r _ s] between_digit
  unfolding group_H_def by auto

lemma group_M_member:
  assumes "(v, r) \<in> set (group_M s)"
  shows "\<exists>m. s = m @ r \<and> short_field m v"
  using assms two_member[of v r _ _ s] one_member[of v r _ s] between_digit
  unfolding group_M_def by auto

lemma group_S_member:
  assumes "(v, r) \<in> set (group_S s)"
  shows "\<exists>m. s = m @ r \<and> short_field m v"
  using assms two_member[of v r _ _ s] one_member[of v r _ s] between_digit
  unfolding group_S_def by auto

lemma blank_one_member:
  assumes "(v, r) \<in> set (blank_one s)"
  shows "\<exists>d. s = d @ r \<and> short_day d v"
proof -
  from assms obtain b where s: "s = CHR '' '' # b # r" and b: "between 1 9 b" and v: "v = digit_val b"
    by (auto simp add: blank_one_def split: list.splits if_splits)
  have "short_day [CHR '' '', b] v" using b v by (simp add: short_day_def between_digit)
  with s show ?thesis by (intro exI[of _ "[CHR '' '', b]"]) simp
qed

lemma group_d_member:
  assumes "(v, r) \<in> set (group_d s)"
  shows "\<exists>d. s = d @ r \<and> short_day d v"
proof -
  from assms consider "(v, r) \<in> set (two (between 3 3) (between 0 1) s)"
    | "(v, r) \<in> set (two (between 1 2) digit s)"
    | "(v, r) \<in> set (two (between 0 0) (between 1 9) s)"
    | "(v, r) \<in> set (one (between 1 9) s)"
    | "(v, r) \<in> set (blank_one s)"
    unfolding group_d_def by auto
  then show ?thesis
  proof cases
    case 1
    from two_member[OF this] between_digit show ?thesis by (auto simp add: short_day_def)
  next
    case 2
    from two_member[OF this] between_digit show ?thesis by (auto simp add: short_day_def)
  next
    case 3
    from two_member[OF this] between_digit show ?thesis by (auto simp add: short_day_def)
  next
    case 4
    from one_member[OF this] between_digit show ?thesis by (auto simp add: short_day_def)
  next
    case 5
    from blank_one_member[OF this] show ?thesis .
  qed
qed

lemma group_Y_member:
  assumes "(y, r) \<in> set (group_Y s)"
  shows "\<exists>Y. s = Y @ r \<and> length Y = 4 \<and> list_all digit Y \<and> decimal Y = y"
proof -
  from assms obtain a b c d where s: "s = a # b # c # d # r"
    and dg: "digit a" "digit b" "digit c" "digit d"
    and y: "y = 1000 * digit_val a + 100 * digit_val b + 10 * digit_val c + digit_val d"
    by (auto simp add: group_Y_def split: list.splits if_splits)
  have "decimal [a, b, c, d] = y" using y by (simp add: decimal_def)
  with s dg show ?thesis by (intro exI[of _ "[a, b, c, d]"]) simp
qed

lemma literal_member: "r \<in> set (literal c s) \<Longrightarrow> s = c # r"
  by (auto simp add: literal_def split: list.splits if_splits)

lemma format_matches_member:
  assumes "(t, r) \<in> set (format_matches s)"
  shows "\<exists>Y m d h mi sec. s = Y @ m @ d @ ''_'' @ h @ mi @ sec @ r
           \<and> length Y = 4 \<and> list_all digit Y \<and> decimal Y = year t
           \<and> short_field m (month t) \<and> short_day d (day t)
           \<and> short_field h (hour t) \<and> short_field mi (minute t) \<and> short_field sec (second t)"
proof -
  from assms obtain y s1 mo s2 dd s3 s4 hh s5 mm s6 ss where
    gy: "(y, s1) \<in> set (group_Y s)" and gm: "(mo, s2) \<in> set (group_m s1)"
    and gd: "(dd, s3) \<in> set (group_d s2)" and li: "s4 \<in> set (literal CHR ''_'' s3)"
    and gh: "(hh, s5) \<in> set (group_H s4)" and gmi: "(mm, s6) \<in> set (group_M s5)"
    and gs: "(ss, r) \<in> set (group_S s6)"
    and t: "t = \<lparr>year = y, month = mo, day = dd, hour = hh, minute = mm, second = ss\<rparr>"
    unfolding format_matches_def by (auto simp add: List.bind_def)
  from group_Y_member[OF gy] obtain Y where Y: "s = Y @ s1" "length Y = 4" "list_all digit Y"
    "decimal Y = y" by blast
  from group_m_member[OF gm] obtain m where m: "s1 = m @ s2" "short_field m mo" by blast
  from group_d_member[OF gd] obtain d where d: "s2 = d @ s3" "short_day d dd" by blast
  from literal_member[OF li] have l: "s3 = CHR ''_'' # s4" .
  from group_H_member[OF gh] obtain h where h: "s4 = h @ s5" "short_field h hh" by blast
  from group_M_member[OF gmi] obtain mi where mi: "s5 = mi @ s6" "short_field mi mm" by blast
  from group_S_member[OF gs] obtain sec where sec: "s6 = sec @ r" "short_field sec ss" by blast
  have "s = Y @ m @ d @ ''_'' @ h @ mi @ sec @ r"
    using Y(1) m(1) d(1) l h(1) mi(1) sec(1) by simp
  with Y m d h mi sec t show ?thesis by (intro exI[of _ Y] exI[of _ m] exI[of _ d]
      exI[of _ h] exI[of _ mi] exI[of _ sec]) simp
qed

lemma strptime_Some:
  assumes "strptime s = Some t"
  shows "valid_datetime t \<and> (t, []) \<in> set (format_matches s)"
  using assms by (auto simp add: strptime_def split: list.splits if_splits)

lemma split_tokens_clean: "tok \<in> set (split c s) \<Longrightarrow> c \<notin> set tok"
proof (induction s arbitrary: tok)
  case Nil
  then show ?case by simp
next
  case (Cons x xs)
  show ?case
  proof (cases "x = c")
    case True
    with Cons show ?thesis by auto
  next
    case False
    obtain t ts where sp: "split c xs = t # ts"
      using split_nonempty[of c xs] by (cases "split c xs") auto
    with Cons.prems False have "tok = x # t \<or> tok \<in> set ts" by auto
    then show ?thesis using Cons.IH[of t] Cons.IH[of tok] sp False by auto
  qed
qed

lemma first_separator:
  assumes "a @ c # b = a' @ c # b'" and "c \<notin> set a" and "c \<notin> set a'"
  shows "a = a' \<and> b = b'"
  using assms
proof (induction a arbitrary: a')
  case Nil
  then show ?case by (cases a') auto
next
  case (Cons x xs)
  then show ?case by (cases a') auto
qed

lemma short_field_clean: "short_field m n \<Longrightarrow> CHR ''_'' \<notin> set m"
  using digit_not_sep by (auto simp add: short_field_def list_all_iff)

lemma short_day_clean:
  assumes "short_day d n"
  shows "CHR ''_'' \<notin> set d"
proof (cases "short_field d n")
  case True
  then show ?thesis by (rule short_field_clean)
next
  case False
  with assms obtain b where "d = [CHR '' '', b]" and "digit b"
    by (auto simp add: short_day_def split: list.splits)
  then show ?thesis using digit_not_sep[of b] by auto
qed

lemma parse_Some:
  assumes "parse_timestamp_from_filename f = Some t"
  shows "valid_datetime t
       \<and> (\<exists>prefix Y m d h mi sec rest.
             split CHR ''_'' f = prefix # (Y @ m @ d) # (h @ mi @ sec) # rest
           \<and> length Y = 4 \<and> list_all digit Y \<and> decimal Y = year t
           \<and> short_field m (month t) \<and> short_day d (day t)
           \<and> short_field h (hour t) \<and> short_field mi (minute t) \<and> short_field sec (second t))"
proof -
  from assms obtain prefix date time rest where
    sp: "split CHR ''_'' f = prefix # date # time # rest"
    and st: "strptime (date @ ''_'' @ time) = Some t"
    by (auto simp add: parse_timestamp_from_filename_def split: list.splits)
  have v: "valid_datetime t" and fm: "(t, []) \<in> set (format_matches (date @ ''_'' @ time))"
    using strptime_Some[OF st] by simp_all
  from format_matches_member[OF fm] obtain Y m d h mi sec where
    eq: "date @ ''_'' @ time = Y @ m @ d @ ''_'' @ h @ mi @ sec @ []"
    and Y: "length Y = 4" "list_all digit Y" "decimal Y = year t"
    and fs: "short_field m (month t)" "short_day d (day t)" "short_field h (hour t)"
      "short_field mi (minute t)" "short_field sec (second t)"
    by blast
  have cd: "CHR ''_'' \<notin> set date" using split_tokens_clean[of date "CHR ''_''" f] sp by simp
  have cy: "CHR ''_'' \<notin> set (Y @ m @ d)"
    using Y(2) digit_not_sep short_field_clean[OF fs(1)] short_day_clean[OF fs(2)]
    by (auto simp add: list_all_iff)
  have "date @ CHR ''_'' # time = (Y @ m @ d) @ CHR ''_'' # (h @ mi @ sec)" using eq by simp
  from first_separator[OF this cd cy] have "date = Y @ m @ d" "time = h @ mi @ sec" by simp_all
  with sp v Y fs show ?thesis by blast
qed

text \<open>
  C4, as the code has it. For a name \<open>prefix_YYYYMMDD_HHMMSS\<close> followed by nothing or by
  an underscore and anything (the prefix without underscore, the fields a valid date and
  time written with leading zeros), \<^verbatim>\<open>parse_timestamp_from_filename\<close> returns exactly
  the embedded date and time. When other characters follow the time inside the same
  token, as the extension does in \<^verbatim>\<open>velib_20240101_080000.json\<close>, it returns
  \<^verbatim>\<open>None\<close>: \<^verbatim>\<open>strptime\<close> refuses the unconverted rest. A name with fewer than two
  underscores gives \<^verbatim>\<open>None\<close>. For every name, a timestamp is returned only when the
  name has at least three tokens, the second is a year of four digits followed by a month
  and a day of one or two digits each (the day also as a blank and a digit), the third is
  an hour, a minute and a second of one or two digits each and nothing more, and the
  timestamp is the valid date and time that these fields read; every other name gives
  \<^verbatim>\<open>None\<close>. Fields shorter than two digits are accepted. The function is total: it
  never raises.
\<close>

theorem parse_timestamp_embedded:
  assumes "valid_datetime t" and "CHR ''_'' \<notin> set prefix" and "CHR ''_'' \<notin> set ext"
  shows "parse_timestamp_from_filename (prefix @ ''_'' @ stamp t @ ext)
           = (if ext = [] then Some t else None)
       \<and> parse_timestamp_from_filename (prefix @ ''_'' @ stamp t @ ext @ ''_'' @ rest)
           = (if ext = [] then Some t else None)
       \<and> (\<forall>f. length (filter (\<lambda>x. x = CHR ''_'') f) < 2
            \<longrightarrow> parse_timestamp_from_filename f = None)
       \<and> (\<forall>f u. parse_timestamp_from_filename f = Some u \<longrightarrow>
            valid_datetime u
            \<and> (\<exists>p Y m d h mi sec r.
                  split CHR ''_'' f = p # (Y @ m @ d) # (h @ mi @ sec) # r
                \<and> length Y = 4 \<and> list_all digit Y \<and> decimal Y = year u
                \<and> short_field m (month u) \<and> short_day d (day u)
                \<and> short_field h (hour u) \<and> short_field mi (minute u)
                \<and> short_field sec (second u)))"
proof -
  obtain date time where st: "stamp t = date @ ''_'' @ time"
    and nd: "CHR ''_'' \<notin> set date" and nt: "CHR ''_'' \<notin> set time"
    using stamp_tokens[OF assms(1)] by blast
  have ntok: "CHR ''_'' \<notin> set (time @ ext)" using nt assms(3) by simp
  have a: "parse_timestamp_from_filename (prefix @ ''_'' @ stamp t @ ext)
          = (if ext = [] then Some t else None)"
    using parse_three_tokens(1)[OF assms(2) nd ntok] strptime_stamp[OF assms(1), of ext]
    by (simp add: st)
  have b: "parse_timestamp_from_filename (prefix @ ''_'' @ stamp t @ ext @ ''_'' @ rest)
          = (if ext = [] then Some t else None)"
    using parse_three_tokens(2)[OF assms(2) nd ntok] strptime_stamp[OF assms(1), of ext]
    by (simp add: st)
  from a b parse_few_tokens parse_Some show ?thesis by blast
qed

theorem parse_timestamp_embedded_witness:
  "valid_datetime eight_oclock \<and> CHR ''_'' \<notin> set ''velib''
   \<and> parse_timestamp_from_filename ''velib_20240101_080000'' = Some eight_oclock
   \<and> parse_timestamp_from_filename ''velib_20240101_080000_x.json'' = Some eight_oclock
   \<and> parse_timestamp_from_filename ''notes.json'' = None
   \<and> parse_timestamp_from_filename ''a_20240101_080_x.json'' = Some eight_past_midnight
   \<and> valid_datetime eight_past_midnight
   \<and> (\<exists>p Y m d h mi sec r.
         split CHR ''_'' ''a_20240101_080_x.json'' = p # (Y @ m @ d) # (h @ mi @ sec) # r
       \<and> length Y = 4 \<and> list_all digit Y \<and> decimal Y = year eight_past_midnight
       \<and> short_field m (month eight_past_midnight) \<and> short_day d (day eight_past_midnight)
       \<and> short_field h (hour eight_past_midnight) \<and> short_field mi (minute eight_past_midnight)
       \<and> short_field sec (second eight_past_midnight))"
proof -
  have v: "valid_datetime eight_oclock"
    by (simp add: valid_datetime_def eight_oclock_def days_in_month_def is_leap_def)
  have p: "CHR ''_'' \<notin> set ''velib''" by simp
  have e: "CHR ''_'' \<notin> set ''''" by simp
  have s: "stamp eight_oclock = ''20240101_080000''" by code_simp
  have q: "parse_timestamp_from_filename ''a_20240101_080_x.json'' = Some eight_past_midnight"
    by code_simp
  note th = parse_timestamp_embedded[OF v p e, of "''x.json''"]
  have 1: "parse_timestamp_from_filename ''velib_20240101_080000'' = Some eight_oclock"
    using conjunct1[OF th] by (simp add: s)
  have 2: "parse_timestamp_from_filename ''velib_20240101_080000_x.json'' = Some eight_oclock"
    using conjunct1[OF conjunct2[OF th]] by (simp add: s)
  have 3: "parse_timestamp_from_filename ''notes.json'' = None"
    using conjunct1[OF conjunct2[OF conjunct2[OF th]]] by simp
  have 4: "valid_datetime eight_past_midnight
   \<and> (\<exists>p Y m d h mi sec r.
         split CHR ''_'' ''a_20240101_080_x.json'' = p # (Y @ m @ d) # (h @ mi @ sec) # r
       \<and> length Y = 4 \<and> list_all digit Y \<and> decimal Y = year eight_past_midnight
       \<and> short_field m (month eight_past_midnight) \<and> short_day d (day eight_past_midnight)
       \<and> short_field h (hour eight_past_midnight) \<and> short_field mi (minute eight_past_midnight)
       \<and> short_field sec (second eight_past_midnight))"
    using conjunct2[OF conjunct2[OF conjunct2[OF th]]] q by blast
  from v p 1 2 3 q 4 show ?thesis by blast
qed

text \<open>
  C4 fails twice. The spec's example name: its third token is \<^verbatim>\<open>080000.json\<close>, and
  the parser returns \<^verbatim>\<open>None\<close> where C4 promises 2024-01-01T08:00:00. A name that
  does not have the shape: the time token \<^verbatim>\<open>080\<close> has three digits, and the parser
  returns 00:08:00 where C4 promises \<^verbatim>\<open>None\<close>.
\<close>

theorem parse_timestamp_example_counterexample:
  "parse_timestamp_from_filename ''velib_20240101_080000.json'' = None
   \<and> parse_timestamp_from_filename ''a_20240101_080_x.json'' = Some eight_past_midnight"
  by code_simp

section \<open>Reconstruction of the progress record\<close>

lemma rebuild_loop_filter:
  "rebuild_loop ex fs acc =
     acc @ filter (\<lambda>f. parse_timestamp_from_filename f \<in> set ex) fs"
  by (induction fs arbitrary: acc) (auto simp add: Let_def)

text \<open>
  C6, as the code has it. For every store and every folder,
  \<^verbatim>\<open>rebuild_progress_from_database\<close> returns a record whose done list holds exactly
  the candidate files (names ending in \<^verbatim>\<open>.json\<close> or \<^verbatim>\<open>.gz\<close>) whose parse result
  is among the \<^verbatim>\<open>timestamp_capture\<close> values of the store, where the parse result of a
  name that does not parse is \<^verbatim>\<open>None\<close> and the value of a row without timestamp is
  \<^verbatim>\<open>None\<close> too. When no snapshot row lacks its timestamp, the list holds exactly the
  candidate files whose parsed timestamp is in the store, and no file whose name does not
  parse.
\<close>

theorem rebuild_done_exactly:
  "\<exists>names. rebuild_progress_from_database e w = JObj [(''done'', JArr (map JStr names))]
     \<and> set names = {f. f \<in> set (listdir e) \<and> candidate f
          \<and> parse_timestamp_from_filename f \<in> set (map snd (snapshot (database w)))}
     \<and> (None \<notin> set (map snd (snapshot (database w))) \<longrightarrow>
          set names = {f. f \<in> set (listdir e) \<and> candidate f
             \<and> (\<exists>t. parse_timestamp_from_filename f = Some t
                   \<and> Some t \<in> set (map snd (snapshot (database w))))}
          \<and> (\<forall>f. parse_timestamp_from_filename f = None \<longrightarrow> f \<notin> set names))"
proof -
  let ?ex = "map snd (snapshot (database w))"
  let ?names = "rebuild_loop ?ex (filter candidate (listdir e)) []"
  have 1: "rebuild_progress_from_database e w = JObj [(''done'', JArr (map JStr ?names))]"
    by (simp add: rebuild_progress_from_database_def)
  have 2: "set ?names = {f. f \<in> set (listdir e) \<and> candidate f
          \<and> parse_timestamp_from_filename f \<in> set ?ex}"
    unfolding rebuild_loop_filter by auto
  have 3: "set ?names = {f. f \<in> set (listdir e) \<and> candidate f
             \<and> (\<exists>t. parse_timestamp_from_filename f = Some t \<and> Some t \<in> set ?ex)}
          \<and> (\<forall>f. parse_timestamp_from_filename f = None \<longrightarrow> f \<notin> set ?names)"
    if n: "None \<notin> set ?ex"
  proof -
    have "parse_timestamp_from_filename f \<in> set ?ex
        \<longleftrightarrow> (\<exists>t. parse_timestamp_from_filename f = Some t \<and> Some t \<in> set ?ex)" for f
      using n by (cases "parse_timestamp_from_filename f") auto
    then have a: "set ?names = {f. f \<in> set (listdir e) \<and> candidate f
             \<and> (\<exists>t. parse_timestamp_from_filename f = Some t \<and> Some t \<in> set ?ex)}"
      unfolding 2 by simp
    have b: "\<forall>f. parse_timestamp_from_filename f = None \<longrightarrow> f \<notin> set ?names"
      unfolding 2 using n by auto
    from a b show ?thesis by blast
  qed
  from 1 2 3 show ?thesis by blast
qed

theorem rebuild_done_exactly_witness:
  "parse_timestamp_from_filename ''velib_20240101_080000.json'' = None
   \<and> None \<notin> set (map snd (snapshot (database after_eight)))
   \<and> (\<exists>names. rebuild_progress_from_database four_names after_eight
                   = JObj [(''done'', JArr (map JStr names))]
          \<and> ''a_20240101_080000_x.json'' \<in> set names
          \<and> ''b_20240101_080500_x.json'' \<notin> set names
          \<and> ''velib_20240101_080000.json'' \<notin> set names
          \<and> ''notes.txt'' \<notin> set names)"
proof -
  have p1: "parse_timestamp_from_filename ''a_20240101_080000_x.json'' = Some eight_oclock"
    by code_simp
  have p2: "parse_timestamp_from_filename ''b_20240101_080500_x.json'' = Some five_past"
    by code_simp
  have p3: "parse_timestamp_from_filename ''velib_20240101_080000.json'' = None"
    by code_simp
  have c1: "candidate ''a_20240101_080000_x.json''" by code_simp
  have c4: "\<not> candidate ''notes.txt''" by code_simp
  have ne: "five_past \<noteq> eight_oclock" by code_simp
  have nn: "None \<notin> set (map snd (snapshot (database after_eight)))"
    by (simp add: after_eight_def empty_db_def)
  obtain names where n: "rebuild_progress_from_database four_names after_eight
        = JObj [(''done'', JArr (map JStr names))]"
    and s: "set names = {f. f \<in> set (listdir four_names) \<and> candidate f
          \<and> parse_timestamp_from_filename f \<in> set (map snd (snapshot (database after_eight)))}"
    and u: "None \<notin> set (map snd (snapshot (database after_eight))) \<longrightarrow>
          set names = {f. f \<in> set (listdir four_names) \<and> candidate f
             \<and> (\<exists>t. parse_timestamp_from_filename f = Some t
                   \<and> Some t \<in> set (map snd (snapshot (database after_eight))))}
          \<and> (\<forall>f. parse_timestamp_from_filename f = None \<longrightarrow> f \<notin> set names)"
    using rebuild_done_exactly[of four_names after_eight] by blast
  have "''a_20240101_080000_x.json'' \<in> set names"
    unfolding s using p1 c1 by (simp add: four_names_def after_eight_def empty_db_def)
  moreover have "''b_20240101_080500_x.json'' \<notin> set names"
    unfolding s using p2 ne by (simp add: four_names_def after_eight_def empty_db_def)
  moreover have "''velib_20240101_080000.json'' \<notin> set names"
    using u nn p3 by blast
  moreover have "''notes.txt'' \<notin> set names"
    unfolding s using c4 by simp
  ultimately show ?thesis using n p3 nn by blast
qed

text \<open>
  C6 fails on a store whose snapshot row has no timestamp: the candidate file whose name
  does not parse is put in the done list, where C6 promises that it is excluded.
\<close>

theorem rebuild_null_row_counterexample:
  "parse_timestamp_from_filename ''velib_20240101_080000.json'' = None
   \<and> rebuild_progress_from_database four_names null_row
        = JObj [(''done'', JArr [JStr ''velib_20240101_080000.json''])]"
  by code_simp

section \<open>A progress file of the wrong shape\<close>

text \<open>
  C10. \<^verbatim>\<open>load_progress\<close> returns the decoded value of the progress file as it is.
  When the value is not an object (a JSON list, for one) or is an object without the key
  \<^verbatim>\<open>done\<close>, \<^verbatim>\<open>progress["done"]\<close> raises (\<^verbatim>\<open>TypeError\<close>, \<^verbatim>\<open>KeyError\<close>) and
  \<^verbatim>\<open>import_data_from_folder\<close> ends with that exception: no file is processed, nothing
  is rebuilt, the world is left as it was.
\<close>

theorem shapeless_progress_aborts:
  assumes "progress_store w = Holds (Doc j)"
    and "case j of JObj kvs \<Rightarrow> map_of kvs ''done'' = None | _ \<Rightarrow> True"
  shows "load_progress e w = j
       \<and> raised (import_data_from_folder e w)
            = Some (case j of JObj kvs \<Rightarrow> KeyError | _ \<Rightarrow> TypeError)
       \<and> reported (import_data_from_folder e w) = no_errors
       \<and> after (import_data_from_folder e w) = w"
proof -
  have l: "load_progress e w = j" using assms(1) by (simp add: load_progress_def)
  have s: "subscript_done j = Inl (case j of JObj kvs \<Rightarrow> KeyError | _ \<Rightarrow> TypeError)"
    using assms(2) by (cases j) (simp_all add: subscript_done_def)
  show ?thesis using l s by (simp add: import_data_from_folder_def)
qed

theorem shapeless_progress_aborts_witness:
  "load_progress four_names (fresh_world\<lparr>progress_store := Holds (Doc (JArr []))\<rparr>) = JArr []
   \<and> raised (import_data_from_folder four_names
        (fresh_world\<lparr>progress_store := Holds (Doc (JArr []))\<rparr>)) = Some TypeError
   \<and> raised (import_data_from_folder four_names
        (fresh_world\<lparr>progress_store := Holds (Doc (JObj [(''finished'', JArr [])]))\<rparr>))
        = Some KeyError"
  using shapeless_progress_aborts[of "fresh_world\<lparr>progress_store := Holds (Doc (JArr []))\<rparr>"
      "JArr []" four_names]
    shapeless_progress_aborts[of
      "fresh_world\<lparr>progress_store := Holds (Doc (JObj [(''finished'', JArr [])]))\<rparr>"
      "JObj [(''finished'', JArr [])]" four_names]
  by simp

section \<open>The transaction of one file\<close>

lemma committed_do_rollback: "committed (snd (do_rollback sch c)) = committed c"
  by (simp add: do_rollback_def rollback_def)

lemma committed_insert_snapshot:
  "committed (fst (snd (insert_snapshot_and_get_id sch c ts))) = committed c"
  by (simp add: insert_snapshot_and_get_id_def do_rollback_def rollback_def
      split: option.splits)

lemma committed_execute_station:
  "committed (snd (execute_station sch rows c)) = committed c"
  by (simp add: execute_station_def split: sum.splits)

lemma committed_execute_velo:
  "committed (snd (execute_velo sch rows c)) = committed c"
  by (simp add: execute_velo_def split: sum.splits)

lemma committed_execute_etat:
  "committed (snd (execute_etat sch rows c)) = committed c"
  by (simp add: execute_etat_def split: sum.splits)

lemma committed_execute_loc:
  "committed (snd (execute_loc sch rows c)) = committed c"
  by (simp add: execute_loc_def split: sum.splits)

lemmas committed_execute = committed_execute_station committed_execute_velo
  committed_execute_etat committed_execute_loc

lemma committed_and_then:
  assumes "committed (snd r) = d" and "\<And>c'. committed c' = d \<Longrightarrow> committed (snd (f c')) = d"
  shows "committed (snd (and_then r f)) = d"
  using assms by (simp add: and_then_def split: option.splits)

lemma committed_inserts: "committed (snd (inserts sch b c)) = committed c"
  unfolding inserts_def
  by (intro committed_and_then) (simp_all add: committed_execute)

lemma write_batches_raises:
  assumes "write_batches sch b c = (Some x, c')"
  shows "committed c' = committed c"
proof -
  have "committed (snd (inserts sch b c)) = committed c" by (rule committed_inserts)
  then show ?thesis using assms
    by (auto simp add: write_batches_def and_then_def do_commit_def
        split: option.splits if_splits prod.splits)
qed

lemma try_body_raises:
  assumes "try_body sch content sid c errs = (Some x, c', errs')"
  shows "committed c' = committed c \<and> errs' = errs"
  using assms write_batches_raises
  by (auto simp add: try_body_def split: sum.splits json.splits prod.splits)

text \<open>
  C2, as the code has it. Let the body of the \<^verbatim>\<open>try\<close> of \<^verbatim>\<open>process_file_content\<close>
  raise at any point (decoding, extraction, any of the four inserts, also midway through
  the \<^verbatim>\<open>localisation_velo\<close> rows, or the commit). The handler first calls
  \<^verbatim>\<open>cursor.connection.rollback()\<close>. When the rollback succeeds, the transaction is
  rolled back: the committed tables are those from before the file, nothing of the file
  is pending, and \<^verbatim>\<open>generic_error\<close> goes up by exactly one, the other counters
  staying. When the rollback itself raises (the connection is lost), its exception leaves
  \<^verbatim>\<open>process_file_content\<close>: the committed tables are still those from before the
  file, but the connection is left as it was at the failure and
  \<^verbatim>\<open>process_file_content\<close> changes no counter.
\<close>

theorem raising_file_is_rolled_back:
  assumes "insert_snapshot_and_get_id sch c ts = (None, c1, Some sid)"
    and "try_body sch content sid c1 errs = (Some x, c2, errs2)"
  shows "(rollback_ok sch (working c2) \<longrightarrow>
            process_file_content sch filename content ts c errs
              = (None, rollback c2, errs\<lparr>generic_error := generic_error errs + 1\<rparr>)
            \<and> committed (rollback c2) = committed c
            \<and> working (rollback c2) = committed c)
       \<and> (\<not> rollback_ok sch (working c2) \<longrightarrow>
            process_file_content sch filename content ts c errs
              = (Some DatabaseError, c2, errs)
            \<and> committed c2 = committed c)"
proof -
  have e: "committed c2 = committed c1 \<and> errs2 = errs"
    using try_body_raises[OF assms(2)] .
  have "committed c1 = committed c"
    using committed_insert_snapshot[of sch c ts] assms(1) by simp
  with e show ?thesis using assms
    by (simp add: process_file_content_def do_rollback_def rollback_def)
qed

theorem raising_file_is_rolled_back_witness:
  "fst (insert_snapshot_and_get_id refuse_bike2 (connect fresh_world) eight_oclock) = None
   \<and> snd (snd (insert_snapshot_and_get_id refuse_bike2 (connect fresh_world) eight_oclock))
        = Some 1
   \<and> fst (try_body refuse_bike2 (Doc one_station) 1
          (fst (snd (insert_snapshot_and_get_id refuse_bike2 (connect fresh_world) eight_oclock)))
          no_errors) = Some DatabaseError
   \<and> map fst (station (working (fst (snd (try_body refuse_bike2 (Doc one_station) 1
          (fst (snd (insert_snapshot_and_get_id refuse_bike2 (connect fresh_world) eight_oclock)))
          no_errors))))) = [JStr ''16107'']
   \<and> rollback_ok refuse_bike2 (working (fst (snd (try_body refuse_bike2 (Doc one_station) 1
          (fst (snd (insert_snapshot_and_get_id refuse_bike2 (connect fresh_world) eight_oclock)))
          no_errors))))
   \<and> fst (process_file_content refuse_bike2 ''a_20240101_080000_x.json''
          (Doc one_station) eight_oclock (connect fresh_world) no_errors) = None
   \<and> committed (fst (snd (process_file_content refuse_bike2 ''a_20240101_080000_x.json''
          (Doc one_station) eight_oclock (connect fresh_world) no_errors))) = empty_db
   \<and> working (fst (snd (process_file_content refuse_bike2 ''a_20240101_080000_x.json''
          (Doc one_station) eight_oclock (connect fresh_world) no_errors))) = empty_db
   \<and> snd (snd (process_file_content refuse_bike2 ''a_20240101_080000_x.json''
          (Doc one_station) eight_oclock (connect fresh_world) no_errors))
        = \<lparr>invalid_format = 0, snapshot_error = 0, generic_error = 1\<rparr>
   \<and> \<not> rollback_ok refuse_bike2_lost (working (fst (snd (try_body refuse_bike2_lost
          (Doc one_station) 1
          (fst (snd (insert_snapshot_and_get_id refuse_bike2_lost (connect fresh_world)
             eight_oclock))) no_errors))))
   \<and> fst (process_file_content refuse_bike2_lost ''a_20240101_080000_x.json''
          (Doc one_station) eight_oclock (connect fresh_world) no_errors) = Some DatabaseError
   \<and> committed (fst (snd (process_file_content refuse_bike2_lost ''a_20240101_080000_x.json''
          (Doc one_station) eight_oclock (connect fresh_world) no_errors))) = empty_db"
proof -
  let ?c = "connect fresh_world"
  let ?s = "insert_snapshot_and_get_id refuse_bike2 ?c eight_oclock"
  let ?t = "try_body refuse_bike2 (Doc one_station) 1 (fst (snd ?s)) no_errors"
  let ?s' = "insert_snapshot_and_get_id refuse_bike2_lost ?c eight_oclock"
  let ?t' = "try_body refuse_bike2_lost (Doc one_station) 1 (fst (snd ?s')) no_errors"
  have a0: "fst ?s = None" by code_simp
  have a: "snd (snd ?s) = Some 1" by code_simp
  have b: "fst ?t = Some DatabaseError" by code_simp
  have p: "map fst (station (working (fst (snd ?t)))) = [JStr ''16107'']" by code_simp
  have r: "rollback_ok refuse_bike2 (working (fst (snd ?t)))"
    by (simp add: refuse_bike2_def accept_all_def)
  have a0': "fst ?s' = None" by code_simp
  have a1': "snd (snd ?s') = Some 1" by code_simp
  have b1': "fst ?t' = Some DatabaseError" by code_simp
  have r': "\<not> rollback_ok refuse_bike2_lost (working (fst (snd ?t')))"
    by (simp add: refuse_bike2_lost_def)
  have a': "?s = (None, fst (snd ?s), Some 1)" using a0 a by (simp add: prod_eq_iff)
  have b': "?t = (Some DatabaseError, fst (snd ?t), snd (snd ?t))"
    using b by (simp add: prod_eq_iff)
  have a'': "?s' = (None, fst (snd ?s'), Some 1)" using a0' a1' by (simp add: prod_eq_iff)
  have b'': "?t' = (Some DatabaseError, fst (snd ?t'), snd (snd ?t'))"
    using b1' by (simp add: prod_eq_iff)
  have d: "committed ?c = empty_db" by (simp add: connect_def fresh_world_def)
  have n: "no_errors\<lparr>generic_error := generic_error no_errors + 1\<rparr>
      = \<lparr>invalid_format = 0, snapshot_error = 0, generic_error = 1\<rparr>"
    by (simp add: no_errors_def)
  show ?thesis
    using raising_file_is_rolled_back[OF a' b', of "''a_20240101_080000_x.json''"]
      raising_file_is_rolled_back[OF a'' b'', of "''a_20240101_080000_x.json''"]
      a0 a b p r r' d n
    by simp
qed

text \<open>
  C2 fails when the connection is lost by the time the \<^verbatim>\<open>localisation_velo\<close> row of
  \<^verbatim>\<open>BIKE2\<close> is refused: the rollback raises, \<^verbatim>\<open>process_file_content\<close> ends with
  the exception, the station, bike and state rows of the file are still pending on the
  connection, and \<^verbatim>\<open>generic_error\<close> is not incremented by it.
\<close>

theorem lost_connection_counterexample:
  "fst (process_file_content refuse_bike2_lost ''a_20240101_080000_x.json''
          (Doc one_station) eight_oclock (connect fresh_world) no_errors) = Some DatabaseError
   \<and> snd (snd (process_file_content refuse_bike2_lost ''a_20240101_080000_x.json''
          (Doc one_station) eight_oclock (connect fresh_world) no_errors)) = no_errors
   \<and> map fst (station (working (fst (snd (process_file_content refuse_bike2_lost
          ''a_20240101_080000_x.json'' (Doc one_station) eight_oclock (connect fresh_world)
          no_errors))))) = [JStr ''16107'']
   \<and> map fst (velo (working (fst (snd (process_file_content refuse_bike2_lost
          ''a_20240101_080000_x.json'' (Doc one_station) eight_oclock (connect fresh_world)
          no_errors))))) = [JStr ''BIKE1'', JStr ''BIKE2'']"
  by code_simp

section \<open>Documents that are not a list\<close>

text \<open>
  C3, at a folder of two files on an empty store: the first file holds a JSON object, the
  second an empty list. The first file counts under \<^verbatim>\<open>invalid_format\<close> and is marked
  done, but its snapshot row stays pending in the open transaction (the
  \<^verbatim>\<open>invalid_format\<close> path returns without a rollback), and the commit of the second
  file commits it: the store ends with a snapshot row of 08:00.
\<close>

theorem invalid_format_snapshot_is_committed:
  "raised (import_data_from_folder object_then_list fresh_world) = None
   \<and> reported (import_data_from_folder object_then_list fresh_world)
        = \<lparr>invalid_format = 1, snapshot_error = 0, generic_error = 0\<rparr>
   \<and> progress_store (after (import_data_from_folder object_then_list fresh_world))
        = Holds (Doc (JObj [(''done'', JArr [JStr ''a_20240101_080000_x.json'',
                                            JStr ''b_20240101_080500_x.json''])]))
   \<and> snapshot (database (after (import_data_from_folder object_then_list fresh_world)))
        = [(1, Some eight_oclock), (2, Some five_past)]"
  by code_simp

text \<open>Alone in its folder, the same file leaves no row: the connection is closed with
  the row still pending.\<close>

lemma invalid_format_alone:
  "reported (import_data_from_folder one_object fresh_world)
        = \<lparr>invalid_format = 1, snapshot_error = 0, generic_error = 0\<rparr>
   \<and> database (after (import_data_from_folder one_object fresh_world)) = empty_db"
  by code_simp

lemma insert_snapshot_returns:
  assumes "snapshot_ok sch (working c) ts"
  shows "\<exists>c1 sid. insert_snapshot_and_get_id sch c ts = (None, c1, Some sid)"
  using assms
  by (cases "find (\<lambda>row. snd row = Some ts) (snapshot (working c))")
     (simp_all add: insert_snapshot_and_get_id_def)

lemma insert_snapshot_refused:
  assumes "\<not> snapshot_ok sch (working c) ts"
  shows "insert_snapshot_and_get_id sch c ts
           = (if rollback_ok sch (working c)
              then (None, rollback (c\<lparr>next_id := next_id c + 1\<rparr>), None)
              else (Some DatabaseError, c\<lparr>next_id := next_id c + 1\<rparr>, None))"
  using assms by (simp add: insert_snapshot_and_get_id_def do_rollback_def)

text \<open>
  C7 fails on two folders of one file each: the file that is not valid JSON counts under
  \<^verbatim>\<open>generic_error\<close>, the file that holds a JSON object under \<^verbatim>\<open>invalid_format\<close>.
\<close>

theorem decode_errors_counterexample:
  "reported (import_data_from_folder one_malformed fresh_world)
     = \<lparr>invalid_format = 0, snapshot_error = 0, generic_error = 1\<rparr>
   \<and> reported (import_data_from_folder one_object fresh_world)
     = \<lparr>invalid_format = 1, snapshot_error = 0, generic_error = 0\<rparr>"
  by code_simp

text \<open>
  C7, as the code has it. When the store accepts the snapshot row of the file: a content
  that is not valid JSON makes \<^verbatim>\<open>json.loads\<close> raise inside the \<^verbatim>\<open>try\<close>, and the
  handler rolls the transaction back and counts one \<^verbatim>\<open>generic_error\<close>, or, when the
  rollback itself raises, its exception leaves \<^verbatim>\<open>process_file_content\<close> with no
  counter changed; a content that is valid JSON but not a list counts one
  \<^verbatim>\<open>invalid_format\<close>, and nothing is rolled back. The two are counted under different
  counters, and the first never under \<^verbatim>\<open>invalid_format\<close>. When the store refuses the
  snapshot row, the content is not looked at: whatever it is, one \<^verbatim>\<open>snapshot_error\<close>
  is counted after the rollback, or the exception of the rollback leaves the function.
\<close>

theorem decode_errors_counted_apart:
  "(snapshot_ok sch (working c) ts \<longrightarrow>
      (content = Blank \<or> content = Malformed \<longrightarrow>
         process_file_content sch filename content ts c errs
           = (if rollback_ok sch (working (fst (snd (insert_snapshot_and_get_id sch c ts))))
              then (None, rollback (fst (snd (insert_snapshot_and_get_id sch c ts))),
                    errs\<lparr>generic_error := generic_error errs + 1\<rparr>)
              else (Some DatabaseError, fst (snd (insert_snapshot_and_get_id sch c ts)), errs)))
    \<and> ((\<forall>items. j \<noteq> JArr items) \<longrightarrow>
         process_file_content sch filename (Doc j) ts c errs
           = (None, fst (snd (insert_snapshot_and_get_id sch c ts)),
              errs\<lparr>invalid_format := invalid_format errs + 1\<rparr>)))
   \<and> (\<not> snapshot_ok sch (working c) ts \<longrightarrow>
        process_file_content sch filename content ts c errs
          = (if rollback_ok sch (working c)
             then (None, rollback (c\<lparr>next_id := next_id c + 1\<rparr>),
                   errs\<lparr>snapshot_error := snapshot_error errs + 1\<rparr>)
             else (Some DatabaseError, c\<lparr>next_id := next_id c + 1\<rparr>, errs)))"
proof -
  have accepted: "(content = Blank \<or> content = Malformed \<longrightarrow>
         process_file_content sch filename content ts c errs
           = (if rollback_ok sch (working (fst (snd (insert_snapshot_and_get_id sch c ts))))
              then (None, rollback (fst (snd (insert_snapshot_and_get_id sch c ts))),
                    errs\<lparr>generic_error := generic_error errs + 1\<rparr>)
              else (Some DatabaseError, fst (snd (insert_snapshot_and_get_id sch c ts)), errs)))
    \<and> ((\<forall>items. j \<noteq> JArr items) \<longrightarrow>
         process_file_content sch filename (Doc j) ts c errs
           = (None, fst (snd (insert_snapshot_and_get_id sch c ts)),
              errs\<lparr>invalid_format := invalid_format errs + 1\<rparr>))"
    if ok: "snapshot_ok sch (working c) ts"
  proof -
    obtain c1 sid where s: "insert_snapshot_and_get_id sch c ts = (None, c1, Some sid)"
      using insert_snapshot_returns[OF ok] by blast
    have a: "content = Blank \<or> content = Malformed \<Longrightarrow>
        try_body sch content sid c1 errs = (Some JSONDecodeError, c1, errs)"
      by (auto simp add: try_body_def json_loads_def)
    have b: "(\<forall>items. j \<noteq> JArr items) \<Longrightarrow>
        try_body sch (Doc j) sid c1 errs
          = (None, c1, errs\<lparr>invalid_format := invalid_format errs + 1\<rparr>)"
      by (cases j) (simp_all add: try_body_def json_loads_def)
    show ?thesis using s a b by (auto simp add: process_file_content_def do_rollback_def)
  qed
  have refused: "process_file_content sch filename content ts c errs
          = (if rollback_ok sch (working c)
             then (None, rollback (c\<lparr>next_id := next_id c + 1\<rparr>),
                   errs\<lparr>snapshot_error := snapshot_error errs + 1\<rparr>)
             else (Some DatabaseError, c\<lparr>next_id := next_id c + 1\<rparr>, errs))"
    if no: "\<not> snapshot_ok sch (working c) ts"
    using insert_snapshot_refused[OF no] by (simp add: process_file_content_def)
  from accepted refused show ?thesis by blast
qed

theorem decode_errors_counted_apart_witness:
  "snapshot_ok accept_all (working (connect fresh_world)) eight_oclock
   \<and> rollback_ok accept_all (working (fst (snd (insert_snapshot_and_get_id accept_all
        (connect fresh_world) eight_oclock))))
   \<and> snd (snd (process_file_content accept_all ''a_20240101_080000_x.json'' Malformed
        eight_oclock (connect fresh_world) no_errors))
       = \<lparr>invalid_format = 0, snapshot_error = 0, generic_error = 1\<rparr>
   \<and> snd (snd (process_file_content accept_all ''a_20240101_080000_x.json'' (Doc (JObj []))
        eight_oclock (connect fresh_world) no_errors))
       = \<lparr>invalid_format = 1, snapshot_error = 0, generic_error = 0\<rparr>
   \<and> \<not> snapshot_ok (store connection_lost) (working (connect fresh_world)) eight_oclock
   \<and> \<not> rollback_ok (store connection_lost) (working (connect fresh_world))
   \<and> fst (process_file_content (store connection_lost) ''a_20240101_080000_x.json'' Malformed
        eight_oclock (connect fresh_world) no_errors) = Some DatabaseError
   \<and> snd (snd (process_file_content (store connection_lost) ''a_20240101_080000_x.json''
        Malformed eight_oclock (connect fresh_world) no_errors)) = no_errors"
proof -
  have h: "snapshot_ok accept_all (working (connect fresh_world)) eight_oclock"
    by (simp add: accept_all_def)
  have r: "rollback_ok accept_all (working (fst (snd (insert_snapshot_and_get_id accept_all
        (connect fresh_world) eight_oclock))))"
    by (simp add: accept_all_def)
  have h': "\<not> snapshot_ok (store connection_lost) (working (connect fresh_world)) eight_oclock"
    by (simp add: connection_lost_def)
  have r': "\<not> rollback_ok (store connection_lost) (working (connect fresh_world))"
    by (simp add: connection_lost_def)
  show ?thesis
    using decode_errors_counted_apart[of accept_all "connect fresh_world" eight_oclock
        Malformed "''a_20240101_080000_x.json''" no_errors "JObj []"]
      decode_errors_counted_apart[of "store connection_lost" "connect fresh_world" eight_oclock
        Malformed "''a_20240101_080000_x.json''" no_errors "JObj []"]
      h r h' r'
    by (simp add: no_errors_def)
qed

section \<open>Marking files done\<close>

lemma map_of_set_key: "map_of (set_key k v kvs) k = Some v"
  by (induction kvs) auto

lemma append_done_list:
  assumes "subscript_done p = Inr (JArr xs)"
  shows "\<exists>p'. append_done p f = Inr p' \<and> subscript_done p' = Inr (JArr (xs @ [JStr f]))"
  using assms
  by (cases p) (auto simp add: append_done_def subscript_done_def map_of_set_key
      split: option.splits)

lemma mark_done_saved:
  assumes "subscript_done (progress st) = Inr (JArr xs)" and "\<forall>p. save e p = Saved"
  shows "\<exists>st'. mark_done e f st = (None, st')
           \<and> subscript_done (progress st') = Inr (JArr (xs @ [JStr f]))
           \<and> pfile st' = Holds (Doc (progress st'))
           \<and> cursor st' = cursor st \<and> counters st' = counters st"
proof -
  obtain p' where "append_done (progress st) f = Inr p'"
    and "subscript_done p' = Inr (JArr (xs @ [JStr f]))"
    using append_done_list[OF assms(1)] by blast
  then show ?thesis using assms(2) by (simp add: mark_done_def written_def)
qed

lemma process_one_retried:
  assumes "retried e f"
  shows "process_one e f st = (None, count_generic st)"
  using assms by (auto simp add: retried_def process_one_def isl_def split: option.splits)

lemma process_one_unparsed:
  assumes "subscript_done (progress st) = Inr (JArr xs)" and "\<forall>p. save e p = Saved"
    and "parse_timestamp_from_filename f = None"
  shows "\<exists>st'. process_one e f st = (None, st')
           \<and> subscript_done (progress st') = Inr (JArr (xs @ [JStr f]))
           \<and> pfile st' = Holds (Doc (progress st'))"
proof -
  have "subscript_done (progress (count_generic st)) = Inr (JArr xs)"
    using assms(1) by (simp add: count_generic_def)
  from mark_done_saved[OF this assms(2), of f] assms(3) show ?thesis
    by (auto simp add: process_one_def)
qed

lemma process_one_returned:
  assumes "subscript_done (progress st) = Inr (JArr xs)" and "\<forall>p. save e p = Saved"
    and "parse_timestamp_from_filename f = Some ts" and "read_file e f = Inr content"
    and "process_file_content (store e) f content ts (cursor st) (counters st) = (None, c, errs)"
  shows "\<exists>st'. process_one e f st = (None, st')
           \<and> subscript_done (progress st') = Inr (JArr (xs @ [JStr f]))
           \<and> pfile st' = Holds (Doc (progress st'))
           \<and> cursor st' = c \<and> counters st' = errs"
proof -
  have "subscript_done (progress (st\<lparr>cursor := c, counters := errs\<rparr>)) = Inr (JArr xs)"
    using assms(1) by simp
  from mark_done_saved[OF this assms(2), of f] assms(3,4,5) show ?thesis
    by (auto simp add: process_one_def)
qed

lemma process_one_escaped:
  assumes "parse_timestamp_from_filename f = Some ts" and "read_file e f = Inr content"
    and "process_file_content (store e) f content ts (cursor st) (counters st) = (Some x, c, errs)"
  shows "process_one e f st = (None, count_generic (st\<lparr>cursor := c, counters := errs\<rparr>))"
  using assms by (simp add: process_one_def)

text \<open>
  C5, as the code has it. Let the progress record hold a done list and the writes of the
  progress file succeed. A file whose name does not parse, and a file whose content
  could be read and for which \<^verbatim>\<open>process_file_content\<close> returned (success, decode error,
  snapshot error or write error, the rollback of the handler succeeding), is appended to
  the done list, and the record is persisted before the next file. A file whose name
  parses and whose read raises, and a file for which an exception leaves
  \<^verbatim>\<open>process_file_content\<close> (the rollback of a handler raises, the connection being
  lost), is counted under \<^verbatim>\<open>generic_error\<close> and is not appended: the record and the
  progress file stay as they were.
\<close>

theorem processed_files_marked_done:
  assumes "subscript_done (progress st) = Inr (JArr xs)" and "\<forall>p. save e p = Saved"
  shows "(parse_timestamp_from_filename f = None \<longrightarrow>
            (\<exists>st'. process_one e f st = (None, st')
               \<and> subscript_done (progress st') = Inr (JArr (xs @ [JStr f]))
               \<and> pfile st' = Holds (Doc (progress st'))))
       \<and> (\<forall>ts content c errs.
            parse_timestamp_from_filename f = Some ts \<and> read_file e f = Inr content
            \<and> process_file_content (store e) f content ts (cursor st) (counters st)
                = (None, c, errs) \<longrightarrow>
            (\<exists>st'. process_one e f st = (None, st')
               \<and> subscript_done (progress st') = Inr (JArr (xs @ [JStr f]))
               \<and> pfile st' = Holds (Doc (progress st'))
               \<and> cursor st' = c \<and> counters st' = errs))
       \<and> (retried e f \<longrightarrow>
            process_one e f st = (None, count_generic st)
            \<and> progress (count_generic st) = progress st
            \<and> pfile (count_generic st) = pfile st)
       \<and> (\<forall>ts content x c errs.
            parse_timestamp_from_filename f = Some ts \<and> read_file e f = Inr content
            \<and> process_file_content (store e) f content ts (cursor st) (counters st)
                = (Some x, c, errs) \<longrightarrow>
            process_one e f st = (None, count_generic (st\<lparr>cursor := c, counters := errs\<rparr>))
            \<and> progress (count_generic (st\<lparr>cursor := c, counters := errs\<rparr>)) = progress st
            \<and> pfile (count_generic (st\<lparr>cursor := c, counters := errs\<rparr>)) = pfile st)"
proof -
  have 1: "parse_timestamp_from_filename f = None \<longrightarrow>
            (\<exists>st'. process_one e f st = (None, st')
               \<and> subscript_done (progress st') = Inr (JArr (xs @ [JStr f]))
               \<and> pfile st' = Holds (Doc (progress st')))"
    using process_one_unparsed[OF assms] by blast
  have 2: "\<forall>ts content c errs.
            parse_timestamp_from_filename f = Some ts \<and> read_file e f = Inr content
            \<and> process_file_content (store e) f content ts (cursor st) (counters st)
                = (None, c, errs) \<longrightarrow>
            (\<exists>st'. process_one e f st = (None, st')
               \<and> subscript_done (progress st') = Inr (JArr (xs @ [JStr f]))
               \<and> pfile st' = Holds (Doc (progress st'))
               \<and> cursor st' = c \<and> counters st' = errs)"
    using process_one_returned[OF assms] by blast
  have 3: "retried e f \<longrightarrow>
            process_one e f st = (None, count_generic st)
            \<and> progress (count_generic st) = progress st
            \<and> pfile (count_generic st) = pfile st"
    using process_one_retried by (simp add: count_generic_def)
  have 4: "\<forall>ts content x c errs.
            parse_timestamp_from_filename f = Some ts \<and> read_file e f = Inr content
            \<and> process_file_content (store e) f content ts (cursor st) (counters st)
                = (Some x, c, errs) \<longrightarrow>
            process_one e f st = (None, count_generic (st\<lparr>cursor := c, counters := errs\<rparr>))
            \<and> progress (count_generic (st\<lparr>cursor := c, counters := errs\<rparr>)) = progress st
            \<and> pfile (count_generic (st\<lparr>cursor := c, counters := errs\<rparr>)) = pfile st"
    using process_one_escaped by (simp add: count_generic_def)
  from 1 2 3 4 show ?thesis by blast
qed

theorem processed_files_marked_done_witness:
  "subscript_done (progress first_state) = Inr (JArr [])
   \<and> (\<forall>p. save four_names p = Saved)
   \<and> parse_timestamp_from_filename ''velib_20240101_080000.json'' = None
   \<and> (\<exists>st'. process_one four_names ''velib_20240101_080000.json'' first_state = (None, st')
          \<and> subscript_done (progress st') = Inr (JArr [JStr ''velib_20240101_080000.json''])
          \<and> pfile st' = Holds (Doc (progress st')))
   \<and> parse_timestamp_from_filename ''a_20240101_080000_x.json'' = Some eight_oclock
   \<and> read_file four_names ''a_20240101_080000_x.json'' = Inr (Doc (JArr []))
   \<and> fst (process_file_content (store four_names) ''a_20240101_080000_x.json'' (Doc (JArr []))
          eight_oclock (cursor first_state) (counters first_state)) = None
   \<and> (\<exists>st'. process_one four_names ''a_20240101_080000_x.json'' first_state = (None, st')
          \<and> subscript_done (progress st') = Inr (JArr [JStr ''a_20240101_080000_x.json''])
          \<and> pfile st' = Holds (Doc (progress st')))
   \<and> (\<forall>p. save unreadable_file p = Saved)
   \<and> retried unreadable_file ''c_20240101_081000_x.json''
   \<and> process_one unreadable_file ''c_20240101_081000_x.json'' first_state
        = (None, count_generic first_state)
   \<and> (\<forall>p. save connection_lost p = Saved)
   \<and> read_file connection_lost ''a_20240101_080000_x.json'' = Inr (Doc one_station)
   \<and> fst (process_file_content (store connection_lost) ''a_20240101_080000_x.json''
          (Doc one_station) eight_oclock (cursor first_state) (counters first_state))
        = Some DatabaseError
   \<and> progress (snd (process_one connection_lost ''a_20240101_080000_x.json'' first_state))
        = progress first_state
   \<and> pfile (snd (process_one connection_lost ''a_20240101_080000_x.json'' first_state))
        = pfile first_state"
proof -
  let ?a = "''a_20240101_080000_x.json''"
  let ?P = "process_file_content (store four_names) ?a (Doc (JArr []))
          eight_oclock (cursor first_state) (counters first_state)"
  let ?Q = "process_file_content (store connection_lost) ?a (Doc one_station)
          eight_oclock (cursor first_state) (counters first_state)"
  have a: "subscript_done (progress first_state) = Inr (JArr [])" by code_simp
  have s1: "\<forall>p. save four_names p = Saved" by (simp add: four_names_def)
  have s2: "\<forall>p. save unreadable_file p = Saved" by (simp add: unreadable_file_def)
  have s3: "\<forall>p. save connection_lost p = Saved" by (simp add: connection_lost_def)
  have n: "parse_timestamp_from_filename ''velib_20240101_080000.json'' = None" by code_simp
  have pa: "parse_timestamp_from_filename ?a = Some eight_oclock" by code_simp
  have ra: "read_file four_names ?a = Inr (Doc (JArr []))" by (simp add: four_names_def)
  have rq: "read_file connection_lost ?a = Inr (Doc one_station)"
    by (simp add: connection_lost_def)
  have fp: "fst ?P = None" by code_simp
  then have P: "?P = (None, fst (snd ?P), snd (snd ?P))" by (simp add: prod_eq_iff)
  have fq: "fst ?Q = Some DatabaseError" by code_simp
  then have Q: "?Q = (Some DatabaseError, fst (snd ?Q), snd (snd ?Q))"
    by (simp add: prod_eq_iff)
  have r: "retried unreadable_file ''c_20240101_081000_x.json''" by code_simp
  note t1 = processed_files_marked_done[OF a s1, of "''velib_20240101_080000.json''"]
  note t2 = processed_files_marked_done[OF a s1, of ?a]
  note t3 = processed_files_marked_done[OF a s2, of "''c_20240101_081000_x.json''"]
  note t4 = processed_files_marked_done[OF a s3, of ?a]
  have c1: "\<exists>st'. process_one four_names ''velib_20240101_080000.json'' first_state = (None, st')
          \<and> subscript_done (progress st') = Inr (JArr [JStr ''velib_20240101_080000.json''])
          \<and> pfile st' = Holds (Doc (progress st'))"
    using mp[OF conjunct1[OF t1] n] by simp
  have c2: "\<exists>st'. process_one four_names ?a first_state = (None, st')
          \<and> subscript_done (progress st') = Inr (JArr [JStr ?a])
          \<and> pfile st' = Holds (Doc (progress st'))"
    using conjunct1[OF conjunct2[OF t2], rule_format, OF conjI[OF pa conjI[OF ra P]]]
    by auto
  have c3: "process_one unreadable_file ''c_20240101_081000_x.json'' first_state
        = (None, count_generic first_state)"
    using mp[OF conjunct1[OF conjunct2[OF conjunct2[OF t3]]] r] by simp
  have c4: "process_one connection_lost ?a first_state
        = (None, count_generic (first_state\<lparr>cursor := fst (snd ?Q), counters := snd (snd ?Q)\<rparr>))
      \<and> progress (count_generic (first_state\<lparr>cursor := fst (snd ?Q), counters := snd (snd ?Q)\<rparr>))
          = progress first_state
      \<and> pfile (count_generic (first_state\<lparr>cursor := fst (snd ?Q), counters := snd (snd ?Q)\<rparr>))
          = pfile first_state"
    using conjunct2[OF conjunct2[OF conjunct2[OF t4]]] pa rq Q by blast
  from a s1 n c1 pa ra fp c2 s2 r c3 s3 rq fq c4 show ?thesis by simp
qed

text \<open>
  C5 fails at a file that cannot be read: the run counts a \<^verbatim>\<open>generic_error\<close> and
  leaves the world as it was, the file not in the done list, so that the next run meets
  the file again. It fails also at a good file when the connection is lost: the snapshot
  row is refused, the rollback raises, the run counts a \<^verbatim>\<open>generic_error\<close> and the file
  is not in the done list.
\<close>

theorem read_error_counterexample:
  "raised (import_data_from_folder unreadable_file fresh_world) = None
   \<and> reported (import_data_from_folder unreadable_file fresh_world)
        = \<lparr>invalid_format = 0, snapshot_error = 0, generic_error = 1\<rparr>
   \<and> after (import_data_from_folder unreadable_file fresh_world) = fresh_world
   \<and> progress_store fresh_world = Holds (Doc (JObj [(''done'', JArr [])]))
   \<and> raised (import_data_from_folder connection_lost fresh_world) = None
   \<and> reported (import_data_from_folder connection_lost fresh_world)
        = \<lparr>invalid_format = 0, snapshot_error = 0, generic_error = 1\<rparr>
   \<and> progress_store (after (import_data_from_folder connection_lost fresh_world))
        = Holds (Doc (JObj [(''done'', JArr [])]))"
  by code_simp

section \<open>A progress file that cannot be written\<close>

text \<open>
  C8, at two good files and a progress file that cannot be written: the \<^verbatim>\<open>OSError\<close>
  of \<^verbatim>\<open>save_progress\<close> is raised inside the \<^verbatim>\<open>try\<close>, so the handler counts a
  \<^verbatim>\<open>generic_error\<close> for each file and the run goes on to its end, both files
  committed and none recorded. Only in the branch of a name that does not parse, which
  has no handler, does the same \<^verbatim>\<open>OSError\<close> end the run.
\<close>

theorem save_failure_is_swallowed:
  "raised (import_data_from_folder disk_full fresh_world) = None
   \<and> reported (import_data_from_folder disk_full fresh_world)
        = \<lparr>invalid_format = 0, snapshot_error = 0, generic_error = 2\<rparr>
   \<and> progress_store (after (import_data_from_folder disk_full fresh_world))
        = progress_store fresh_world
   \<and> snapshot (database (after (import_data_from_folder disk_full fresh_world)))
        = [(1, Some eight_oclock), (2, Some five_past)]
   \<and> raised (import_data_from_folder disk_full_bad_name fresh_world) = Some OSError"
  by code_simp

section \<open>Running the pipeline twice\<close>

lemma files_loop_retried:
  assumes "\<forall>f \<in> set fs. retried e f"
  shows "fst (files_loop e fs st) = None
       \<and> progress (snd (files_loop e fs st)) = progress st
       \<and> pfile (snd (files_loop e fs st)) = pfile st
       \<and> cursor (snd (files_loop e fs st)) = cursor st"
  using assms
proof (induction fs arbitrary: st)
  case Nil
  then show ?case by simp
next
  case (Cons f fs)
  then have "retried e f" and "\<forall>f \<in> set fs. retried e f" by simp_all
  then show ?case
    using Cons.IH[of "count_generic st"]
    by (simp add: process_one_retried count_generic_def)
qed

lemma process_file_content_returns:
  assumes "\<forall>d. rollback_ok sch d"
  shows "fst (process_file_content sch f content ts c errs) = None"
  using assms
  by (auto simp add: process_file_content_def insert_snapshot_and_get_id_def do_rollback_def
      split: prod.splits option.splits if_splits)

lemma process_one_done:
  assumes "subscript_done (progress st) = Inr (JArr xs)" and "\<forall>p. save e p = Saved"
    and "\<forall>d. rollback_ok (store e) d" and "\<not> retried e f"
  shows "\<exists>st'. process_one e f st = (None, st')
           \<and> subscript_done (progress st') = Inr (JArr (xs @ [JStr f]))
           \<and> pfile st' = Holds (Doc (progress st'))"
proof (cases "parse_timestamp_from_filename f")
  case None
  from process_one_unparsed[OF assms(1,2) None] show ?thesis .
next
  case (Some ts)
  then obtain content where r: "read_file e f = Inr content"
    using assms(4) by (cases "read_file e f") (auto simp add: retried_def)
  let ?P = "process_file_content (store e) f content ts (cursor st) (counters st)"
  have "fst ?P = None" using process_file_content_returns[OF assms(3)] .
  then have "?P = (None, fst (snd ?P), snd (snd ?P))" by (simp add: prod_eq_iff)
  from process_one_returned[OF assms(1,2) Some r this] show ?thesis by blast
qed

lemma files_loop_done:
  assumes "subscript_done (progress st) = Inr (JArr xs)" and "\<forall>p. save e p = Saved"
    and "\<forall>d. rollback_ok (store e) d"
  shows "\<exists>st'. files_loop e fs st = (None, st')
           \<and> subscript_done (progress st')
                = Inr (JArr (xs @ map JStr (filter (\<lambda>f. \<not> retried e f) fs)))
           \<and> (if filter (\<lambda>f. \<not> retried e f) fs = []
               then pfile st' = pfile st \<and> cursor st' = cursor st
               else pfile st' = Holds (Doc (progress st')))"
  using assms(1)
proof (induction fs arbitrary: st xs)
  case Nil
  then show ?case by simp
next
  case (Cons f fs)
  show ?case
  proof (cases "retried e f")
    case True
    have d: "subscript_done (progress (count_generic st)) = Inr (JArr xs)"
      using Cons.prems by (simp add: count_generic_def)
    from Cons.IH[OF d] True show ?thesis
      by (auto simp add: process_one_retried count_generic_def)
  next
    case False
    obtain st1 where p: "process_one e f st = (None, st1)"
      and d: "subscript_done (progress st1) = Inr (JArr (xs @ [JStr f]))"
      and s: "pfile st1 = Holds (Doc (progress st1))"
      using process_one_done[OF Cons.prems assms(2,3) False] by blast
    obtain st' where l: "files_loop e fs st1 = (None, st')"
      and d': "subscript_done (progress st')
                = Inr (JArr ((xs @ [JStr f]) @ map JStr (filter (\<lambda>f. \<not> retried e f) fs)))"
      and s': "if filter (\<lambda>f. \<not> retried e f) fs = []
               then pfile st' = pfile st1 \<and> cursor st' = cursor st1
               else pfile st' = Holds (Doc (progress st'))"
      using Cons.IH[OF d] by blast
    have "pfile st' = Holds (Doc (progress st'))"
    proof (cases "filter (\<lambda>f. \<not> retried e f) fs = []")
      case True
      then have "\<forall>g \<in> set fs. retried e g" by (auto simp add: filter_empty_conv)
      from files_loop_retried[OF this, of st1] l s' True s show ?thesis by simp
    next
      case False
      with s' show ?thesis by simp
    qed
    with p l d' False show ?thesis by simp
  qed
qed

lemma load_progress_shape:
  assumes "usable (progress_store w)"
  shows "\<exists>xs. subscript_done (load_progress e w) = Inr (JArr xs) \<and> list_all hashable xs"
proof -
  have r: "\<exists>xs. subscript_done (rebuild_progress_from_database e w) = Inr (JArr xs)
      \<and> list_all hashable xs"
    by (simp add: rebuild_progress_from_database_def subscript_done_def list_all_iff)
  show ?thesis
  proof (cases "progress_store w")
    case Missing
    with r show ?thesis by (simp add: load_progress_def)
  next
    case Unreadable
    with r show ?thesis by (simp add: load_progress_def)
  next
    case (Holds content)
    show ?thesis
    proof (cases content)
      case Blank
      with Holds r show ?thesis by (simp add: load_progress_def)
    next
      case Malformed
      with Holds r show ?thesis by (simp add: load_progress_def)
    next
      case (Doc j)
      with Holds assms show ?thesis
        by (auto simp add: load_progress_def usable_def split: sum.splits json.splits)
    qed
  qed
qed

lemma to_set_list: "list_all hashable xs \<Longrightarrow> to_set (JArr xs) = Inr xs"
  by (simp add: to_set_def iterate_def)

lemma import_unfold:
  assumes "subscript_done (load_progress e w) = Inr (JArr xs)" and "list_all hashable xs"
  shows "import_data_from_folder e w =
     (case files_loop e (filter (\<lambda>f. JStr f \<notin> set xs) (filter candidate (listdir e)))
             \<lparr>progress = load_progress e w, pfile = progress_store w, cursor = connect w,
              counters = no_errors\<rparr> of
        (r, st) \<Rightarrow> \<lparr>raised = r, reported = counters st,
                    after = \<lparr>progress_store = pfile st, database = committed (cursor st),
                             sequence = next_id (cursor st)\<rparr>\<rparr>)"
  using assms by (simp add: import_data_from_folder_def to_set_list)

lemma connect_world:
  "\<lparr>progress_store = progress_store w, database = committed (connect w),
    sequence = next_id (connect w)\<rparr> = w"
  by (simp add: connect_def)

text \<open>
  C1, as the code has it. Let no rollback raise (the connection to the store is not
  lost), the writes of the progress file succeed and the progress file be one the
  pipeline can start from. Then for every folder (names, contents, read errors) and every
  store, a run ends without exception, and a second run on the world the first one left,
  over the unchanged folder, ends without exception and leaves the tables and the
  progress file as the first run left them: the files of the persisted done list are not
  among its remaining files, and the files it meets again are those it could not read,
  which touch no table.
\<close>

theorem second_run_changes_nothing:
  assumes conn: "\<forall>d. rollback_ok (store e) d" and saves: "\<forall>p. save e p = Saved"
    and start: "usable (progress_store w)"
  shows "raised (import_data_from_folder e w) = None
       \<and> raised (import_data_from_folder e (after (import_data_from_folder e w))) = None
       \<and> database (after (import_data_from_folder e (after (import_data_from_folder e w))))
            = database (after (import_data_from_folder e w))
       \<and> progress_store (after (import_data_from_folder e (after (import_data_from_folder e w))))
            = progress_store (after (import_data_from_folder e w))"
proof -
  let ?cand = "filter candidate (listdir e)"
  let ?P0 = "load_progress e w"
  obtain xs where d0: "subscript_done ?P0 = Inr (JArr xs)" and h0: "list_all hashable xs"
    using load_progress_shape[OF start] by blast
  let ?rem1 = "filter (\<lambda>f. JStr f \<notin> set xs) ?cand"
  let ?st0 = "\<lparr>progress = ?P0, pfile = progress_store w, cursor = connect w,
              counters = no_errors\<rparr>"
  let ?ns = "filter (\<lambda>f. \<not> retried e f) ?rem1"
  have d0': "subscript_done (progress ?st0) = Inr (JArr xs)" using d0 by simp
  obtain st1 where l1: "files_loop e ?rem1 ?st0 = (None, st1)"
    and d1: "subscript_done (progress st1) = Inr (JArr (xs @ map JStr ?ns))"
    and s1: "if ?ns = [] then pfile st1 = pfile ?st0 \<and> cursor st1 = cursor ?st0
             else pfile st1 = Holds (Doc (progress st1))"
    using files_loop_done[OF d0' saves conn, of ?rem1] by blast
  let ?w1 = "\<lparr>progress_store = pfile st1, database = committed (cursor st1),
              sequence = next_id (cursor st1)\<rparr>"
  have run1: "import_data_from_folder e w
      = \<lparr>raised = None, reported = counters st1, after = ?w1\<rparr>"
    using import_unfold[OF d0 h0] l1 by simp
  show ?thesis
  proof (cases "?ns = []")
    case True
    with s1 have "?w1 = w" using connect_world[of w] by simp
    with run1 show ?thesis by simp
  next
    case False
    with s1 have pf: "progress_store ?w1 = Holds (Doc (progress st1))" by simp
    then have lp: "load_progress e ?w1 = progress st1" by (simp add: load_progress_def)
    have d2: "subscript_done (load_progress e ?w1) = Inr (JArr (xs @ map JStr ?ns))"
      using lp d1 by simp
    have h2: "list_all hashable (xs @ map JStr ?ns)" using h0 by (auto simp add: list_all_iff)
    let ?rem2 = "filter (\<lambda>f. JStr f \<notin> set (xs @ map JStr ?ns)) (filter candidate (listdir e))"
    let ?st2 = "\<lparr>progress = load_progress e ?w1, pfile = progress_store ?w1,
                cursor = connect ?w1, counters = no_errors\<rparr>"
    have all: "\<forall>f \<in> set ?rem2. retried e f" by auto
    have l2: "fst (files_loop e ?rem2 ?st2) = None
       \<and> pfile (snd (files_loop e ?rem2 ?st2)) = pfile ?st2
       \<and> cursor (snd (files_loop e ?rem2 ?st2)) = cursor ?st2"
      using files_loop_retried[OF all, of ?st2] by simp
    have run2: "import_data_from_folder e ?w1 =
       (case files_loop e ?rem2 ?st2 of
          (r, st) \<Rightarrow> \<lparr>raised = r, reported = counters st,
                      after = \<lparr>progress_store = pfile st, database = committed (cursor st),
                               sequence = next_id (cursor st)\<rparr>\<rparr>)"
      using import_unfold[OF d2 h2] by simp
    have "raised (import_data_from_folder e ?w1) = None
        \<and> database (after (import_data_from_folder e ?w1)) = database ?w1
        \<and> progress_store (after (import_data_from_folder e ?w1)) = progress_store ?w1"
      using l2 unfolding run2 by (simp add: case_prod_beta connect_def)
    with run1 show ?thesis by simp
  qed
qed

theorem second_run_changes_nothing_witness:
  "(\<forall>d. rollback_ok (store mixed_folder) d) \<and> (\<forall>p. save mixed_folder p = Saved)
   \<and> usable (progress_store fresh_world)
   \<and> raised (import_data_from_folder mixed_folder fresh_world) = None
   \<and> map fst (station (database (after (import_data_from_folder mixed_folder fresh_world))))
        = [JStr ''16107'']
   \<and> raised (import_data_from_folder mixed_folder
               (after (import_data_from_folder mixed_folder fresh_world))) = None
   \<and> database (after (import_data_from_folder mixed_folder
               (after (import_data_from_folder mixed_folder fresh_world))))
        = database (after (import_data_from_folder mixed_folder fresh_world))
   \<and> progress_store (after (import_data_from_folder mixed_folder
               (after (import_data_from_folder mixed_folder fresh_world))))
        = progress_store (after (import_data_from_folder mixed_folder fresh_world))"
proof -
  have c: "\<forall>d. rollback_ok (store mixed_folder) d"
    by (simp add: mixed_folder_def accept_all_def)
  have s: "\<forall>p. save mixed_folder p = Saved" by (simp add: mixed_folder_def)
  have u: "usable (progress_store fresh_world)" by code_simp
  have r: "map fst (station (database (after (import_data_from_folder mixed_folder fresh_world))))
        = [JStr ''16107'']" by code_simp
  show ?thesis using second_run_changes_nothing[OF c s u] c s u r by simp
qed

text \<open>
  C1 fails when a connection is lost. The store ends a session left idle inside a
  transaction; the first file holds a JSON object and leaves its snapshot row pending, so
  that for the second file the insert and the rollback raise: the run counts a
  \<^verbatim>\<open>generic_error\<close>, does not record the second file and commits nothing. The second
  run meets the second file on a new connection and commits its snapshot row: the tables
  are not those that the first run left.
\<close>

theorem second_run_counterexample:
  "raised (import_data_from_folder idle_killed fresh_world) = None
   \<and> snapshot (database (after (import_data_from_folder idle_killed fresh_world))) = []
   \<and> progress_store (after (import_data_from_folder idle_killed fresh_world))
        = Holds (Doc (JObj [(''done'', JArr [JStr ''a_20240101_080000_x.json''])]))
   \<and> snapshot (database (after (import_data_from_folder idle_killed
        (after (import_data_from_folder idle_killed fresh_world)))))
        = [(3, Some five_past)]"
  by code_simp

section \<open>First writer wins\<close>

lemma insert_rows_grows:
  assumes "insert_rows key ok tbl rows = Inr t"
  shows "\<exists>new. t = tbl @ new \<and> (\<forall>r \<in> set new. key r \<notin> set (map key tbl))
           \<and> set (map key rows) \<subseteq> set (map key t)"
  using assms
proof (induction rows arbitrary: tbl)
  case Nil
  then show ?case by simp
next
  case (Cons r rs)
  then have okr: "ok r" by (simp split: if_splits)
  show ?case
  proof (cases "key r \<in> set (map key tbl)")
    case True
    with Cons.prems okr have "insert_rows key ok tbl rs = Inr t" by simp
    from Cons.IH[OF this] True show ?thesis by auto
  next
    case False
    with Cons.prems okr have "insert_rows key ok (tbl @ [r]) rs = Inr t" by simp
    from Cons.IH[OF this] obtain new where n: "t = (tbl @ [r]) @ new"
      and a: "\<forall>x \<in> set new. key x \<notin> set (map key (tbl @ [r]))"
      and s: "set (map key rs) \<subseteq> set (map key t)" by blast
    have "t = tbl @ (r # new)" using n by simp
    moreover have "\<forall>x \<in> set (r # new). key x \<notin> set (map key tbl)" using a False by auto
    moreover have "set (map key (r # rs)) \<subseteq> set (map key t)" using s n by auto
    ultimately show ?thesis by blast
  qed
qed

lemma insert_rows_keeps:
  assumes "insert_rows key ok tbl rows = Inr t" and "k \<in> set (map key tbl)"
  shows "filter (\<lambda>r. key r = k) t = filter (\<lambda>r. key r = k) tbl"
proof -
  obtain new where n: "t = tbl @ new" and a: "\<forall>r \<in> set new. key r \<notin> set (map key tbl)"
    using insert_rows_grows[OF assms(1)] by blast
  have "filter (\<lambda>r. key r = k) new = []" using a assms(2) by (auto simp add: filter_empty_conv)
  with n show ?thesis by simp
qed

lemma insert_rows_adds:
  assumes "insert_rows key ok tbl rows = Inr t" and "k \<in> set (map key rows)"
    and "k \<notin> set (map key tbl)"
  shows "\<exists>r \<in> set t. key r = k \<and> r \<notin> set tbl"
proof -
  have "k \<in> set (map key t)" using insert_rows_grows[OF assms(1)] assms(2) by blast
  then obtain r where "r \<in> set t" "key r = k" by auto
  moreover have "r \<notin> set tbl" using assms(3) \<open>key r = k\<close> by auto
  ultimately show ?thesis by blast
qed

lemma and_then_None:
  "and_then r f = (None, c') \<longleftrightarrow> (\<exists>c1. r = (None, c1) \<and> f c1 = (None, c'))"
  by (cases r) (auto simp add: and_then_def split: option.splits)

lemma execute_station_ok:
  assumes "(if rows \<noteq> [] then execute_station sch rows c else (None, c)) = (None, c')"
  shows "(\<exists>ok. insert_rows fst ok (station (working c)) rows = Inr (station (working c')))
       \<and> velo (working c') = velo (working c)
       \<and> etat_station (working c') = etat_station (working c)
       \<and> localisation_velo (working c') = localisation_velo (working c)
       \<and> snapshot (working c') = snapshot (working c)"
  using assms by (cases "rows = []") (auto simp add: execute_station_def split: sum.splits)

lemma execute_velo_ok:
  assumes "(if rows \<noteq> [] then execute_velo sch rows c else (None, c)) = (None, c')"
  shows "(\<exists>ok. insert_rows fst ok (velo (working c)) rows = Inr (velo (working c')))
       \<and> station (working c') = station (working c)
       \<and> etat_station (working c') = etat_station (working c)
       \<and> localisation_velo (working c') = localisation_velo (working c)
       \<and> snapshot (working c') = snapshot (working c)"
  using assms by (cases "rows = []") (auto simp add: execute_velo_def split: sum.splits)

lemma execute_etat_ok:
  assumes "(if rows \<noteq> [] then execute_etat sch rows c else (None, c)) = (None, c')"
  shows "(\<exists>ok. insert_rows etat_key ok (etat_station (working c)) rows
                  = Inr (etat_station (working c')))
       \<and> station (working c') = station (working c)
       \<and> velo (working c') = velo (working c)
       \<and> localisation_velo (working c') = localisation_velo (working c)
       \<and> snapshot (working c') = snapshot (working c)"
  using assms by (cases "rows = []") (auto simp add: execute_etat_def split: sum.splits)

lemma execute_loc_ok:
  assumes "(if rows \<noteq> [] then execute_loc sch rows c else (None, c)) = (None, c')"
  shows "(\<exists>ok. insert_rows loc_key ok (localisation_velo (working c)) rows
                  = Inr (localisation_velo (working c')))
       \<and> station (working c') = station (working c)
       \<and> velo (working c') = velo (working c)
       \<and> etat_station (working c') = etat_station (working c)
       \<and> snapshot (working c') = snapshot (working c)"
  using assms by (cases "rows = []") (auto simp add: execute_loc_def split: sum.splits)

lemma inserts_ok:
  assumes "inserts sch b c = (None, c')"
  shows "(\<exists>ok. insert_rows fst ok (station (working c)) (station_buffer b)
                  = Inr (station (working c')))
       \<and> (\<exists>ok. insert_rows fst ok (velo (working c)) (velo_buffer b) = Inr (velo (working c')))
       \<and> (\<exists>ok. insert_rows etat_key ok (etat_station (working c)) (etat_station_buffer b)
                  = Inr (etat_station (working c')))
       \<and> (\<exists>ok. insert_rows loc_key ok (localisation_velo (working c))
                  (localisation_velo_buffer b) = Inr (localisation_velo (working c')))
       \<and> snapshot (working c') = snapshot (working c)"
proof -
  from assms obtain c1 c2 c3 where
    1: "(if station_buffer b \<noteq> [] then execute_station sch (station_buffer b) c else (None, c))
          = (None, c1)"
    and 2: "(if velo_buffer b \<noteq> [] then execute_velo sch (velo_buffer b) c1 else (None, c1))
          = (None, c2)"
    and 3: "(if etat_station_buffer b \<noteq> [] then execute_etat sch (etat_station_buffer b) c2
           else (None, c2)) = (None, c3)"
    and 4: "(if localisation_velo_buffer b \<noteq> [] then execute_loc sch (localisation_velo_buffer b) c3
           else (None, c3)) = (None, c')"
    unfolding inserts_def and_then_None by blast
  from execute_station_ok[OF 1] execute_velo_ok[OF 2] execute_etat_ok[OF 3] execute_loc_ok[OF 4]
  show ?thesis by simp
qed

lemma bikes_loop_frame:
  assumes "bikes_loop sid code bikes b = Inr b'"
  shows "station_buffer b' = station_buffer b
       \<and> etat_station_buffer b' = etat_station_buffer b
       \<and> ((\<forall>r \<in> set (localisation_velo_buffer b). fst r = sid)
            \<longrightarrow> (\<forall>r \<in> set (localisation_velo_buffer b'). fst r = sid))"
  using assms
proof (induction bikes arbitrary: b)
  case Nil
  then show ?case by simp
next
  case (Cons bike rest)
  then obtain bk where bk: "bike = JObj bk" by (cases bike) simp_all
  show ?case
  proof (cases "truthy (lookup bk ''bikeName'' JNull)")
    case False
    with Cons.prems bk have "bikes_loop sid code rest b = Inr b'" by simp
    from Cons.IH[OF this] show ?thesis .
  next
    case True
    let ?b1 = "b\<lparr>velo_buffer := velo_buffer b @
                   [(lookup bk ''bikeName'' JNull, lookup bk ''bikeElectric'' JNull)],
                 localisation_velo_buffer := localisation_velo_buffer b @
                   [(sid, lookup bk ''bikeName'' JNull, code, lookup bk ''bikeStatus'' JNull,
                     lookup bk ''dockPosition'' JNull)]\<rparr>"
    from Cons.prems bk True have "bikes_loop sid code rest ?b1 = Inr b'" by (simp add: Let_def)
    from Cons.IH[OF this] show ?thesis by simp
  qed
qed

lemma etat_key_pair: "etat_key (a, b, r) = (a, b)"
  by (simp add: etat_key_def)

lemma stations_loop_keys:
  assumes "stations_loop sid items b = Inr b'"
    and "map etat_key (etat_station_buffer b) = map (\<lambda>r. (sid, fst r)) (station_buffer b)"
    and "\<forall>r \<in> set (localisation_velo_buffer b). fst r = sid"
  shows "map etat_key (etat_station_buffer b') = map (\<lambda>r. (sid, fst r)) (station_buffer b')
       \<and> (\<forall>r \<in> set (localisation_velo_buffer b'). fst r = sid)"
  using assms
proof (induction items arbitrary: b)
  case Nil
  then show ?case by simp
next
  case (Cons station_data rest)
  then obtain sd where sd: "station_data = JObj sd" by (cases station_data) simp_all
  with Cons.prems(1) obtain info where info: "lookup sd ''station'' (JObj []) = JObj info"
    by (cases "lookup sd ''station'' (JObj [])") simp_all
  show ?case
  proof (cases "truthy (lookup info ''code'' JNull)")
    case False
    with Cons.prems(1) sd info have "stations_loop sid rest b = Inr b'" by simp
    from Cons.IH[OF this Cons.prems(2,3)] show ?thesis .
  next
    case True
    with Cons.prems(1) sd info obtain gps where gps: "lookup info ''gps'' (JObj []) = JObj gps"
      by (cases "lookup info ''gps'' (JObj [])") (simp_all add: Let_def)
    let ?code = "lookup info ''code'' JNull"
    let ?b1 = "b\<lparr>station_buffer := station_buffer b @
                   [(?code, lookup info ''name'' JNull,
                     lookup gps ''latitude'' JNull, lookup gps ''longitude'' JNull,
                     lookup info ''stationType'' JNull, lookup info ''type'' JNull)],
                 etat_station_buffer := etat_station_buffer b @
                   [(sid, ?code, lookup sd ''state'' JNull,
                     lookup sd ''nbBike'' JNull, lookup sd ''nbEbike'' JNull,
                     lookup sd ''nbFreeDock'' JNull)]\<rparr>"
    from Cons.prems(1) sd info True gps obtain bikes b2 where
      it: "iterate (lookup sd ''bikes'' (JArr [])) = Inr bikes"
      and bl: "bikes_loop sid ?code bikes ?b1 = Inr b2"
      and sl: "stations_loop sid rest b2 = Inr b'"
      by (auto simp add: Let_def split: sum.splits)
    have k1: "map etat_key (etat_station_buffer ?b1) = map (\<lambda>r. (sid, fst r)) (station_buffer ?b1)"
      using Cons.prems(2) by (simp add: etat_key_pair)
    have l1: "\<forall>r \<in> set (localisation_velo_buffer ?b1). fst r = sid"
      using Cons.prems(3) by simp
    have k2: "map etat_key (etat_station_buffer b2) = map (\<lambda>r. (sid, fst r)) (station_buffer b2)"
      using bikes_loop_frame[OF bl] k1 by simp
    have l2: "\<forall>r \<in> set (localisation_velo_buffer b2). fst r = sid"
      using bikes_loop_frame[OF bl] l1 by blast
    from Cons.IH[OF sl k2 l2] show ?thesis .
  qed
qed

lemma errors_changed:
  "n \<noteq> snapshot_error errs \<Longrightarrow> errs\<lparr>snapshot_error := n\<rparr> \<noteq> errs"
  "n \<noteq> generic_error errs \<Longrightarrow> errs\<lparr>generic_error := n\<rparr> \<noteq> errs"
  "n \<noteq> invalid_format errs \<Longrightarrow> errs\<lparr>invalid_format := n\<rparr> \<noteq> errs"
proof -
  show "n \<noteq> snapshot_error errs \<Longrightarrow> errs\<lparr>snapshot_error := n\<rparr> \<noteq> errs"
  proof
    assume "n \<noteq> snapshot_error errs" and "errs\<lparr>snapshot_error := n\<rparr> = errs"
    then have "snapshot_error (errs\<lparr>snapshot_error := n\<rparr>) = snapshot_error errs"
      by simp
    with \<open>n \<noteq> snapshot_error errs\<close> show False by simp
  qed
  show "n \<noteq> generic_error errs \<Longrightarrow> errs\<lparr>generic_error := n\<rparr> \<noteq> errs"
  proof
    assume "n \<noteq> generic_error errs" and "errs\<lparr>generic_error := n\<rparr> = errs"
    then have "generic_error (errs\<lparr>generic_error := n\<rparr>) = generic_error errs"
      by simp
    with \<open>n \<noteq> generic_error errs\<close> show False by simp
  qed
  show "n \<noteq> invalid_format errs \<Longrightarrow> errs\<lparr>invalid_format := n\<rparr> \<noteq> errs"
  proof
    assume "n \<noteq> invalid_format errs" and "errs\<lparr>invalid_format := n\<rparr> = errs"
    then have "invalid_format (errs\<lparr>invalid_format := n\<rparr>) = invalid_format errs"
      by simp
    with \<open>n \<noteq> invalid_format errs\<close> show False by simp
  qed
qed

lemma process_file_content_success:
  assumes "process_file_content sch filename content ts c errs = (None, c', errs)"
  shows "\<exists>c1 sid items b c2.
           insert_snapshot_and_get_id sch c ts = (None, c1, Some sid)
         \<and> content = Doc (JArr items)
         \<and> stations_loop sid items empty_buffers = Inr b
         \<and> inserts sch b c1 = (None, c2)
         \<and> c' = commit c2"
proof -
  obtain y c1 r where s0: "insert_snapshot_and_get_id sch c ts = (y, c1, r)"
    by (cases "insert_snapshot_and_get_id sch c ts")
  have y: "y = None"
    using assms s0 by (cases y) (simp_all add: process_file_content_def)
  from assms s0 y obtain sid where sid: "r = Some sid"
    by (cases r) (auto simp add: process_file_content_def errors_changed)
  have s: "insert_snapshot_and_get_id sch c ts = (None, c1, Some sid)"
    using s0 y sid by simp
  obtain x c2' errs2 where t: "try_body sch content sid c1 errs = (x, c2', errs2)"
    by (cases "try_body sch content sid c1 errs")
  have x: "x = None"
  proof (cases x)
    case (Some a)
    then have "errs2 = errs" using try_body_raises[of sch content sid c1 errs a c2' errs2] t
      by simp
    with Some assms s t show ?thesis
      by (auto simp add: process_file_content_def do_rollback_def errors_changed
          split: if_splits)
  qed simp
  from x assms s t have c2': "c2' = c'" and e2: "errs2 = errs"
    by (simp_all add: process_file_content_def)
  from t x c2' e2 obtain j where j: "content = Doc j"
    by (cases content) (auto simp add: try_body_def json_loads_def)
  from t x c2' e2 j obtain items where items: "j = JArr items"
    by (cases j) (auto simp add: try_body_def json_loads_def errors_changed)
  from t x c2' e2 j items obtain b where b: "stations_loop sid items empty_buffers = Inr b"
    and w: "write_batches sch b c1 = (None, c')"
    by (auto simp add: try_body_def json_loads_def split: sum.splits prod.splits)
  from w obtain c2 where i: "inserts sch b c1 = (None, c2)" and d: "do_commit sch c2 = (None, c')"
    unfolding write_batches_def and_then_None by blast
  from d have "c' = commit c2" by (auto simp add: do_commit_def split: if_splits)
  with s j items b i show ?thesis by blast
qed

lemma insert_snapshot_new:
  assumes "insert_snapshot_and_get_id sch c ts = (None, c1, Some sid)"
    and "Some ts \<notin> set (map snd (snapshot (working c)))"
  shows "sid = next_id c
       \<and> snapshot (working c1) = snapshot (working c) @ [(next_id c, Some ts)]
       \<and> station (working c1) = station (working c)
       \<and> velo (working c1) = velo (working c)
       \<and> etat_station (working c1) = etat_station (working c)
       \<and> localisation_velo (working c1) = localisation_velo (working c)"
proof -
  have "find (\<lambda>row. snd row = Some ts) (snapshot (working c)) = None"
    using assms(2) by (force simp add: find_None_iff)
  with assms(1) show ?thesis
    by (auto simp add: insert_snapshot_and_get_id_def do_rollback_def
        split: if_splits prod.splits)
qed

lemma insert_snapshot_tables:
  assumes "insert_snapshot_and_get_id sch c ts = (None, c1, Some sid)"
  shows "station (working c1) = station (working c) \<and> velo (working c1) = velo (working c)"
  using assms
  by (auto simp add: insert_snapshot_and_get_id_def do_rollback_def
      split: if_splits option.splits prod.splits)

text \<open>
  C9. Let \<^verbatim>\<open>process_file_content\<close> return from a file without counting an error.
  For
  every \<^verbatim>\<open>station_code\<close> that the \<^verbatim>\<open>station\<close> table held before, the committed
  table holds the same rows under that code afterwards, unchanged and none added; the
  same for every \<^verbatim>\<open>velo_name\<close> of the \<^verbatim>\<open>velo\<close> table. When the timestamp is new (and
  no fact row carries the identifier the sequence gives next), the snapshot gets that
  identifier, and the committed tables gain, for every station code the file carries, an
  \<^verbatim>\<open>etat_station\<close> row of the new snapshot, and for every bike location of the file a
  \<^verbatim>\<open>localisation_velo\<close> row of the new snapshot.
\<close>

theorem first_writer_wins:
  assumes "process_file_content sch filename content ts c errs = (None, c', errs)"
  shows "(\<forall>k \<in> set (map fst (station (working c))).
            filter (\<lambda>r. fst r = k) (station (committed c'))
              = filter (\<lambda>r. fst r = k) (station (working c)))
       \<and> (\<forall>k \<in> set (map fst (velo (working c))).
            filter (\<lambda>r. fst r = k) (velo (committed c'))
              = filter (\<lambda>r. fst r = k) (velo (working c)))
       \<and> (Some ts \<notin> set (map snd (snapshot (working c)))
          \<and> next_id c \<notin> set (map fst (etat_station (working c)))
          \<and> next_id c \<notin> set (map fst (localisation_velo (working c)))
          \<longrightarrow> (\<exists>items b. content = Doc (JArr items)
                 \<and> stations_loop (next_id c) items empty_buffers = Inr b
                 \<and> (next_id c, Some ts) \<in> set (snapshot (committed c'))
                 \<and> (\<forall>k \<in> set (map fst (station_buffer b)).
                       \<exists>r \<in> set (etat_station (committed c')).
                         etat_key r = (next_id c, k) \<and> r \<notin> set (etat_station (working c)))
                 \<and> (\<forall>l \<in> set (localisation_velo_buffer b).
                       \<exists>r \<in> set (localisation_velo (committed c')).
                         loc_key r = loc_key l \<and> r \<notin> set (localisation_velo (working c)))))"
proof -
  obtain c1 sid items b c2 where
    s: "insert_snapshot_and_get_id sch c ts = (None, c1, Some sid)"
    and content: "content = Doc (JArr items)"
    and ex: "stations_loop sid items empty_buffers = Inr b"
    and ins: "inserts sch b c1 = (None, c2)"
    and c': "c' = commit c2"
    using process_file_content_success[OF assms] by blast
  have com: "committed c' = working c2" using c' by (simp add: commit_def)
  obtain ok1 ok2 ok3 ok4 where
    st: "insert_rows fst ok1 (station (working c1)) (station_buffer b) = Inr (station (working c2))"
    and ve: "insert_rows fst ok2 (velo (working c1)) (velo_buffer b) = Inr (velo (working c2))"
    and et: "insert_rows etat_key ok3 (etat_station (working c1)) (etat_station_buffer b)
               = Inr (etat_station (working c2))"
    and lo: "insert_rows loc_key ok4 (localisation_velo (working c1))
               (localisation_velo_buffer b) = Inr (localisation_velo (working c2))"
    and sn: "snapshot (working c2) = snapshot (working c1)"
    using inserts_ok[OF ins] by blast
  have same: "station (working c1) = station (working c)" "velo (working c1) = velo (working c)"
    using insert_snapshot_tables[OF s] by simp_all
  have 1: "\<forall>k \<in> set (map fst (station (working c))).
            filter (\<lambda>r. fst r = k) (station (committed c'))
              = filter (\<lambda>r. fst r = k) (station (working c))"
    using insert_rows_keeps[OF st] same com by simp
  have 2: "\<forall>k \<in> set (map fst (velo (working c))).
            filter (\<lambda>r. fst r = k) (velo (committed c'))
              = filter (\<lambda>r. fst r = k) (velo (working c))"
    using insert_rows_keeps[OF ve] same com by simp
  have 3: "\<exists>items b. content = Doc (JArr items)
                 \<and> stations_loop (next_id c) items empty_buffers = Inr b
                 \<and> (next_id c, Some ts) \<in> set (snapshot (committed c'))
                 \<and> (\<forall>k \<in> set (map fst (station_buffer b)).
                       \<exists>r \<in> set (etat_station (committed c')).
                         etat_key r = (next_id c, k) \<and> r \<notin> set (etat_station (working c)))
                 \<and> (\<forall>l \<in> set (localisation_velo_buffer b).
                       \<exists>r \<in> set (localisation_velo (committed c')).
                         loc_key r = loc_key l \<and> r \<notin> set (localisation_velo (working c)))"
    if new: "Some ts \<notin> set (map snd (snapshot (working c)))"
      and f1: "next_id c \<notin> set (map fst (etat_station (working c)))"
      and f2: "next_id c \<notin> set (map fst (localisation_velo (working c)))"
  proof -
    have sid: "sid = next_id c"
      and sn1: "snapshot (working c1) = snapshot (working c) @ [(next_id c, Some ts)]"
      and e1: "etat_station (working c1) = etat_station (working c)"
      and l1: "localisation_velo (working c1) = localisation_velo (working c)"
      using insert_snapshot_new[OF s new] by simp_all
    have keys: "map etat_key (etat_station_buffer b) = map (\<lambda>r. (sid, fst r)) (station_buffer b)"
      and locs: "\<forall>r \<in> set (localisation_velo_buffer b). fst r = sid"
      using stations_loop_keys[OF ex] by (simp_all add: empty_buffers_def)
    have snap: "(next_id c, Some ts) \<in> set (snapshot (committed c'))"
      using com sn sn1 by simp
    have etat: "\<exists>r \<in> set (etat_station (committed c')).
                  etat_key r = (next_id c, k) \<and> r \<notin> set (etat_station (working c))"
      if k: "k \<in> set (map fst (station_buffer b))" for k
    proof -
      have "(sid, k) \<in> set (map (\<lambda>r. (sid, fst r)) (station_buffer b))" using k by auto
      then have a: "(sid, k) \<in> set (map etat_key (etat_station_buffer b))" using keys by simp
      have n: "(sid, k) \<notin> set (map etat_key (etat_station (working c1)))"
        using f1 sid e1 by (auto simp add: etat_key_def)
      from insert_rows_adds[OF et a n] show ?thesis using com e1 sid by simp
    qed
    have loc: "\<exists>r \<in> set (localisation_velo (committed c')).
                  loc_key r = loc_key l \<and> r \<notin> set (localisation_velo (working c))"
      if l: "l \<in> set (localisation_velo_buffer b)" for l
    proof -
      have a: "loc_key l \<in> set (map loc_key (localisation_velo_buffer b))" using l by simp
      have "fst l = sid" using locs l by blast
      then have n: "loc_key l \<notin> set (map loc_key (localisation_velo (working c1)))"
        using f2 sid l1 by (auto simp add: loc_key_def)
      from insert_rows_adds[OF lo a n] show ?thesis using com l1 by simp
    qed
    from content ex sid snap etat loc show ?thesis by blast
  qed
  from 1 2 3 show ?thesis by blast
qed

theorem first_writer_wins_witness:
  "fst (process_file_content accept_all ''b_20240101_080500_x.json'' (Doc (JArr later_items))
          five_past stocked no_errors) = None
   \<and> snd (snd (process_file_content accept_all ''b_20240101_080500_x.json''
          (Doc (JArr later_items)) five_past stocked no_errors)) = no_errors
   \<and> JStr ''16107'' \<in> set (map fst (station (working stocked)))
   \<and> JStr ''BIKE1'' \<in> set (map fst (velo (working stocked)))
   \<and> Some five_past \<notin> set (map snd (snapshot (working stocked)))
   \<and> filter (\<lambda>r. fst r = JStr ''16107'')
        (station (committed (fst (snd (process_file_content accept_all ''b_20240101_080500_x.json''
           (Doc (JArr later_items)) five_past stocked no_errors)))))
      = [(JStr ''16107'', JStr ''Test'', JFloat 488 (-1), JFloat 23 (-1), JNull, JNull)]
   \<and> filter (\<lambda>r. fst r = JStr ''BIKE1'')
        (velo (committed (fst (snd (process_file_content accept_all ''b_20240101_080500_x.json''
           (Doc (JArr later_items)) five_past stocked no_errors)))))
      = [(JStr ''BIKE1'', JBool True)]
   \<and> (\<exists>r \<in> set (etat_station (committed (fst (snd (process_file_content accept_all
           ''b_20240101_080500_x.json'' (Doc (JArr later_items)) five_past stocked no_errors))))).
         etat_key r = (next_id stocked, JStr ''16107'') \<and> r \<notin> set (etat_station (working stocked)))"
proof -
  let ?P = "process_file_content accept_all ''b_20240101_080500_x.json''
              (Doc (JArr later_items)) five_past stocked no_errors"
  have e0: "fst ?P = None" by code_simp
  have e: "snd (snd ?P) = no_errors" by code_simp
  have h: "?P = (None, fst (snd ?P), no_errors)" using e0 e by (simp add: prod_eq_iff)
  have k1: "JStr ''16107'' \<in> set (map fst (station (working stocked)))" by code_simp
  have k2: "JStr ''BIKE1'' \<in> set (map fst (velo (working stocked)))" by code_simp
  have n: "Some five_past \<notin> set (map snd (snapshot (working stocked)))" by code_simp
  have f1: "next_id stocked \<notin> set (map fst (etat_station (working stocked)))" by code_simp
  have f2: "next_id stocked \<notin> set (map fst (localisation_velo (working stocked)))" by code_simp
  have o1: "filter (\<lambda>r. fst r = JStr ''16107'') (station (working stocked))
      = [(JStr ''16107'', JStr ''Test'', JFloat 488 (-1), JFloat 23 (-1), JNull, JNull)]"
    by code_simp
  have o2: "filter (\<lambda>r. fst r = JStr ''BIKE1'') (velo (working stocked))
      = [(JStr ''BIKE1'', JBool True)]"
    by code_simp
  have b: "map fst (station_buffer (projr (stations_loop (next_id stocked) later_items
      empty_buffers))) = [JStr ''16107'']" by code_simp
  note t = first_writer_wins[OF h]
  have s1: "filter (\<lambda>r. fst r = JStr ''16107'') (station (committed (fst (snd ?P))))
      = [(JStr ''16107'', JStr ''Test'', JFloat 488 (-1), JFloat 23 (-1), JNull, JNull)]"
    using bspec[OF conjunct1[OF t] k1] o1 by simp
  have s2: "filter (\<lambda>r. fst r = JStr ''BIKE1'') (velo (committed (fst (snd ?P))))
      = [(JStr ''BIKE1'', JBool True)]"
    using bspec[OF conjunct1[OF conjunct2[OF t]] k2] o2 by simp
  have "\<exists>items b. Doc (JArr later_items) = Doc (JArr items)
          \<and> stations_loop (next_id stocked) items empty_buffers = Inr b
          \<and> (next_id stocked, Some five_past) \<in> set (snapshot (committed (fst (snd ?P))))
          \<and> (\<forall>k \<in> set (map fst (station_buffer b)).
                \<exists>r \<in> set (etat_station (committed (fst (snd ?P)))).
                  etat_key r = (next_id stocked, k) \<and> r \<notin> set (etat_station (working stocked)))
          \<and> (\<forall>l \<in> set (localisation_velo_buffer b).
                \<exists>r \<in> set (localisation_velo (committed (fst (snd ?P)))).
                  loc_key r = loc_key l \<and> r \<notin> set (localisation_velo (working stocked)))"
    using mp[OF conjunct2[OF conjunct2[OF t]]] n f1 f2 by blast
  then obtain items bf where "Doc (JArr later_items) = Doc (JArr items)"
    and sl: "stations_loop (next_id stocked) items empty_buffers = Inr bf"
    and et: "\<forall>k \<in> set (map fst (station_buffer bf)).
               \<exists>r \<in> set (etat_station (committed (fst (snd ?P)))).
                 etat_key r = (next_id stocked, k) \<and> r \<notin> set (etat_station (working stocked))"
    by blast
  then have "items = later_items" by simp
  with sl b have "JStr ''16107'' \<in> set (map fst (station_buffer bf))" by simp
  with et have s3: "\<exists>r \<in> set (etat_station (committed (fst (snd ?P)))).
      etat_key r = (next_id stocked, JStr ''16107'') \<and> r \<notin> set (etat_station (working stocked))"
    by blast
  from e0 e k1 k2 n s1 s2 s3 show ?thesis by simp
qed

end
